theory Spec2Isabelle
  imports Main "HOL-Library.AList"
begin

section \<open>Data model of the TODO service (backend/main.py)\<close>

text \<open>
  A Python \<open>str\<close> is a sequence of Unicode code points, and \<open>len\<close> as well as the
  pydantic length bounds count code points; a string is therefore a list of code points.
  Integers are Python's unbounded integers.
\<close>

type_synonym pystr = "nat list"

definition str :: "string \<Rightarrow> pystr" where
  "str s = map of_char s"

text \<open>
  A Python \<open>dict\<close> keeps insertion order: assigning to an existing key keeps its position,
  assigning to a new key appends it, \<open>del\<close> removes the entry. This is an association list
  with \<open>AList.update\<close> and \<open>AList.delete\<close>; \<open>map_of\<close> is the lookup and
  \<open>map snd\<close> is \<open>values()\<close>.
\<close>

type_synonym ('k, 'v) dict = "('k \<times> 'v) list"

text \<open>The todo dictionaries built by \<open>create_todo\<close> and \<open>replace_todo\<close>.\<close>

record todo =
  t_id :: int
  t_user_id :: int
  t_title :: pystr
  t_description :: "pystr option"
  t_due_date :: "pystr option"
  t_priority :: int
  t_completed :: bool
  t_created_at :: pystr

text \<open>The user dictionaries built by \<open>register\<close>.\<close>

record user_data =
  u_id :: int
  u_username :: pystr
  u_email :: pystr
  u_password :: pystr
  u_created_at :: pystr

text \<open>The module-level storage: the three tables and the two counters.\<close>

record state =
  user_todos :: "(int, (int, todo) dict) dict"
  users_db :: "(pystr, user_data) dict"
  sessions :: "(pystr, int) dict"
  current_user_id :: int
  current_todo_id :: "(int, int) dict"

definition init :: state where
  "init = \<lparr>user_todos = [], users_db = [], sessions = [], current_user_id = 1,
            current_todo_id = []\<rparr>"

text \<open>
  Errors are values: an \<open>HTTPException\<close> carries its status code and detail; a request
  body that pydantic rejects is a \<open>ValidationError\<close> (answered with status 422); a
  handler result that does not pass the route's response model is a
  \<open>ResponseValidationError\<close>, which nothing catches (answered with status 500).
\<close>

datatype error = HTTPException int string | ValidationError | ResponseValidationError

subsection \<open>Strings: \<open>str.strip()\<close> and \<open>str(int)\<close>\<close>

text \<open>The code points Python treats as whitespace (\<open>str.isspace\<close>).\<close>

definition isspace :: "nat \<Rightarrow> bool" where
  "isspace c = ((9 \<le> c \<and> c \<le> 13) \<or> (28 \<le> c \<and> c \<le> 32) \<or> c = 133 \<or> c = 160
     \<or> c = 5760 \<or> (8192 \<le> c \<and> c \<le> 8202) \<or> c = 8232 \<or> c = 8233 \<or> c = 8239
     \<or> c = 8287 \<or> c = 12288)"

definition strip :: "pystr \<Rightarrow> pystr" where
  "strip v = rev (dropWhile isspace (rev (dropWhile isspace v)))"

fun digits :: "nat \<Rightarrow> string" where
  "digits n = (if n < 10 then [''0123456789'' ! n]
               else digits (n div 10) @ [''0123456789'' ! (n mod 10)])"

declare digits.simps [simp del]

definition str_int :: "int \<Rightarrow> string" where
  "str_int i = (if i < 0 then CHR ''-'' # digits (nat (- i)) else digits (nat i))"

subsection \<open>Password hashing\<close>

text \<open>
  \<open>hash_password\<close> is the hexadecimal SHA-256 digest of the password. The digest
  comes from \<open>hashlib\<close>; it is a parameter of the model.
\<close>

definition hash_password :: "(pystr \<Rightarrow> pystr) \<Rightarrow> pystr \<Rightarrow> pystr" where
  "hash_password sha256_hexdigest password = sha256_hexdigest password"

section \<open>Request models (pydantic)\<close>

subsection \<open>UserRegister and UserLogin\<close>

text \<open>
  The decoded JSON body of \<open>/register\<close>. \<open>EmailStr\<close> is checked (and normalised) by the
  email-validator package: \<open>email_check\<close> is a parameter returning the normalised address,
  or \<open>None\<close> for a rejected one.
\<close>

record UserRegister =
  r_username :: pystr
  r_email :: pystr
  r_password :: pystr

definition UserRegister_validate ::
  "(pystr \<Rightarrow> pystr option) \<Rightarrow> UserRegister \<Rightarrow> error + UserRegister" where
  "UserRegister_validate email_check b =
     (if length (r_username b) < 3 \<or> 50 < length (r_username b) then Inl ValidationError
      else case email_check (r_email b) of
        None \<Rightarrow> Inl ValidationError
      | Some e \<Rightarrow>
          if length (r_password b) < 6 then Inl ValidationError
          else Inr (b\<lparr>r_email := e\<rparr>))"

record UserLogin =
  l_username :: pystr
  l_password :: pystr

subsection \<open>TodoBase / TodoCreate\<close>

text \<open>
  The decoded JSON body of a create or replace request: \<open>None\<close> is a field that was
  left out (for \<open>description\<close> and \<open>due_date\<close> also an explicit null, which is their
  default); a missing \<open>priority\<close> is 3, a missing \<open>completed\<close> is false, and \<open>title\<close>
  is required.
\<close>

record todo_body =
  b_title :: "pystr option"
  b_description :: "pystr option"
  b_due_date :: "pystr option"
  b_priority :: "int option"
  b_completed :: "bool option"

record TodoCreate =
  title :: pystr
  description :: "pystr option"
  due_date :: "pystr option"
  priority :: int
  completed :: bool

text \<open>The field validator of \<open>title\<close>; it runs after the length bounds of the field.\<close>

definition validate_title :: "pystr \<Rightarrow> error + pystr" where
  "validate_title v =
     (let trimmed = strip v in
      if trimmed = [] then Inl ValidationError else Inr trimmed)"

definition TodoCreate_validate :: "todo_body \<Rightarrow> error + TodoCreate" where
  "TodoCreate_validate b =
     (case b_title b of
        None \<Rightarrow> Inl ValidationError
      | Some v \<Rightarrow>
          if length v < 1 \<or> 100 < length v then Inl ValidationError
          else case validate_title v of
            Inl e \<Rightarrow> Inl e
          | Inr trimmed \<Rightarrow>
              if (case b_description b of None \<Rightarrow> False | Some d \<Rightarrow> 500 < length d)
              then Inl ValidationError
              else
                let p = (case b_priority b of None \<Rightarrow> 3 | Some p \<Rightarrow> p) in
                if p < 1 \<or> 5 < p then Inl ValidationError
                else Inr \<lparr>title = trimmed, description = b_description b,
                          due_date = b_due_date b, priority = p,
                          completed = (case b_completed b of None \<Rightarrow> False | Some c \<Rightarrow> c)\<rparr>)"

subsection \<open>TodoUpdate\<close>

text \<open>
  Every field of a patch is optional with default \<open>None\<close>, and
  \<open>model_dump(exclude_unset=True)\<close> tells a field that was left out from one that was
  sent as null: a field is \<open>Unset\<close>, \<open>Null\<close> or carries a value.
\<close>

datatype 'a field = Unset | Null | Val 'a

record TodoUpdate =
  p_title :: "pystr field"
  p_description :: "pystr field"
  p_due_date :: "pystr field"
  p_priority :: "int field"
  p_completed :: "bool field"

definition TodoUpdate_validate :: "TodoUpdate \<Rightarrow> error + TodoUpdate" where
  "TodoUpdate_validate p =
     (if (case p_title p of Val v \<Rightarrow> length v < 1 \<or> 100 < length v | _ \<Rightarrow> False)
      then Inl ValidationError
      else if (case p_description p of Val d \<Rightarrow> 500 < length d | _ \<Rightarrow> False)
      then Inl ValidationError
      else if (case p_priority p of Val n \<Rightarrow> n < 1 \<or> 5 < n | _ \<Rightarrow> False)
      then Inl ValidationError
      else Inr p)"

section \<open>Identity manager\<close>

text \<open>The dictionary returned by the authentication dependency.\<close>

record current_user =
  cu_id :: int
  cu_username :: "pystr option"

definition unauthorized :: "string \<Rightarrow> error" where
  "unauthorized detail = HTTPException 401 detail"

definition get_current_user :: "state \<Rightarrow> pystr \<Rightarrow> error + current_user" where
  "get_current_user st token =
     (case map_of (sessions st) token of
        None \<Rightarrow> Inl (unauthorized ''Invalid or expired token'')
      | Some user_id \<Rightarrow>
          if user_id \<notin> set (map (\<lambda>user. u_id user) (map snd (users_db st)))
          then Inl (unauthorized ''User not found'')
          else Inr \<lparr>cu_id = user_id,
                    cu_username =
                      (case filter (\<lambda>u. u_id u = user_id) (map snd (users_db st)) of
                         [] \<Rightarrow> None
                       | u # _ \<Rightarrow> Some (u_username u))\<rparr>)"

text \<open>
  \<open>get_user_todos\<close> creates the user's scope and counter when they are missing, and
  returns the scope and the next id together with the storage it has touched.
\<close>

definition get_user_todos :: "state \<Rightarrow> int \<Rightarrow> ((int, todo) dict \<times> int) \<times> state" where
  "get_user_todos st user_id =
     (let st1 = (case map_of (user_todos st) user_id of
                   None \<Rightarrow> st\<lparr>user_todos := AList.update user_id [] (user_todos st)\<rparr>
                 | Some _ \<Rightarrow> st);
          st2 = (case map_of (current_todo_id st1) user_id of
                   None \<Rightarrow> st1\<lparr>current_todo_id := AList.update user_id 1 (current_todo_id st1)\<rparr>
                 | Some _ \<Rightarrow> st1)
      in (((case map_of (user_todos st2) user_id of None \<Rightarrow> [] | Some todos \<Rightarrow> todos),
           (case map_of (current_todo_id st2) user_id of None \<Rightarrow> 1 | Some n \<Rightarrow> n)),
          st2))"

text \<open>
  \<open>register\<close> receives the validated model, the clock reading and the token drawn from
  \<open>secrets.token_hex(32)\<close>.
\<close>

definition register ::
  "(pystr \<Rightarrow> pystr) \<Rightarrow> state \<Rightarrow> UserRegister \<Rightarrow> pystr \<Rightarrow> pystr \<Rightarrow> (error + pystr) \<times> state" where
  "register sha st user now token =
     (if r_username user \<in> fst ` set (users_db st)
      then (Inl (HTTPException 400 ''Username already exists''), st)
      else
        let user_data = \<lparr>u_id = current_user_id st, u_username = r_username user,
                         u_email = r_email user,
                         u_password = hash_password sha (r_password user),
                         u_created_at = now\<rparr>
        in (Inr token,
            st\<lparr>users_db := AList.update (r_username user) user_data (users_db st),
               sessions := AList.update token (current_user_id st) (sessions st),
               user_todos := AList.update (current_user_id st) [] (user_todos st),
               current_todo_id := AList.update (current_user_id st) 1 (current_todo_id st),
               current_user_id := current_user_id st + 1\<rparr>))"

definition login ::
  "(pystr \<Rightarrow> pystr) \<Rightarrow> state \<Rightarrow> UserLogin \<Rightarrow> pystr \<Rightarrow> (error + pystr) \<times> state" where
  "login sha st user token =
     (case map_of (users_db st) (l_username user) of
        None \<Rightarrow> (Inl (unauthorized ''Invalid username or password''), st)
      | Some stored_user \<Rightarrow>
          if u_password stored_user \<noteq> hash_password sha (l_password user)
          then (Inl (unauthorized ''Invalid username or password''), st)
          else (Inr token, st\<lparr>sessions := AList.update token (u_id stored_user) (sessions st)\<rparr>))"

definition logout :: "state \<Rightarrow> pystr \<Rightarrow> string \<times> state" where
  "logout st token =
     (''Logged out successfully'',
      (if token \<in> fst ` set (sessions st)
       then st\<lparr>sessions := AList.delete token (sessions st)\<rparr> else st))"

definition get_current_user_info :: "state \<Rightarrow> current_user \<Rightarrow> user_data option" where
  "get_current_user_info st cu =
     (case cu_username cu of None \<Rightarrow> None | Some username \<Rightarrow> map_of (users_db st) username)"

section \<open>Task store\<close>

definition not_found :: "int \<Rightarrow> error" where
  "not_found todo_id = HTTPException 404 (''TODO with id '' @ str_int todo_id @ '' not found'')"

text \<open>Writing back the scope of one user (the inner dictionary is mutated in place).\<close>

definition set_todos :: "state \<Rightarrow> int \<Rightarrow> (int, todo) dict \<Rightarrow> state" where
  "set_todos st user_id todos = st\<lparr>user_todos := AList.update user_id todos (user_todos st)\<rparr>"

definition create_todo :: "state \<Rightarrow> TodoCreate \<Rightarrow> int \<Rightarrow> pystr \<Rightarrow> todo \<times> state" where
  "create_todo st todo user_id now =
     (let ((todos, next_id), st1) = get_user_todos st user_id;
          new_todo = \<lparr>t_id = next_id, t_user_id = user_id, t_title = title todo,
                      t_description = description todo, t_due_date = due_date todo,
                      t_priority = priority todo, t_completed = completed todo,
                      t_created_at = now\<rparr>;
          st2 = set_todos st1 user_id (AList.update next_id new_todo todos)
      in (new_todo,
          st2\<lparr>current_todo_id := AList.update user_id (next_id + 1) (current_todo_id st2)\<rparr>))"

definition list_todos :: "state \<Rightarrow> int \<Rightarrow> todo list \<times> state" where
  "list_todos st user_id =
     (let ((todos, _), st1) = get_user_todos st user_id in (map snd todos, st1))"

definition get_todo :: "state \<Rightarrow> int \<Rightarrow> int \<Rightarrow> (error + todo) \<times> state" where
  "get_todo st todo_id user_id =
     (let ((todos, _), st1) = get_user_todos st user_id in
      case map_of todos todo_id of
        None \<Rightarrow> (Inl (not_found todo_id), st1)
      | Some t \<Rightarrow> (Inr t, st1))"

definition replace_todo :: "state \<Rightarrow> int \<Rightarrow> TodoCreate \<Rightarrow> int \<Rightarrow> (error + todo) \<times> state" where
  "replace_todo st todo_id todo user_id =
     (let ((todos, _), st1) = get_user_todos st user_id in
      case map_of todos todo_id of
        None \<Rightarrow> (Inl (not_found todo_id), st1)
      | Some old \<Rightarrow>
          let updated_todo = \<lparr>t_id = todo_id, t_user_id = user_id, t_title = title todo,
                              t_description = description todo, t_due_date = due_date todo,
                              t_priority = priority todo, t_completed = completed todo,
                              t_created_at = t_created_at old\<rparr>
          in (Inr updated_todo, set_todos st1 user_id (AList.update todo_id updated_todo todos)))"

text \<open>
  The loop of \<open>update_todo\<close> over the dumped fields, in the order of the model's fields:
  a field that was not sent is not in the dump, and a null value is skipped.
\<close>

definition apply_update :: "TodoUpdate \<Rightarrow> todo \<Rightarrow> todo" where
  "apply_update u t =
     (let t1 = (case p_title u of Val v \<Rightarrow> t\<lparr>t_title := v\<rparr> | _ \<Rightarrow> t);
          t2 = (case p_description u of Val v \<Rightarrow> t1\<lparr>t_description := Some v\<rparr> | _ \<Rightarrow> t1);
          t3 = (case p_due_date u of Val v \<Rightarrow> t2\<lparr>t_due_date := Some v\<rparr> | _ \<Rightarrow> t2);
          t4 = (case p_priority u of Val v \<Rightarrow> t3\<lparr>t_priority := v\<rparr> | _ \<Rightarrow> t3)
      in (case p_completed u of Val v \<Rightarrow> t4\<lparr>t_completed := v\<rparr> | _ \<Rightarrow> t4))"

definition update_todo :: "state \<Rightarrow> int \<Rightarrow> TodoUpdate \<Rightarrow> int \<Rightarrow> (error + todo) \<times> state" where
  "update_todo st todo_id todo_update user_id =
     (let ((todos, _), st1) = get_user_todos st user_id in
      case map_of todos todo_id of
        None \<Rightarrow> (Inl (not_found todo_id), st1)
      | Some t \<Rightarrow>
          let current_todo = apply_update todo_update t
          in (Inr current_todo, set_todos st1 user_id (AList.update todo_id current_todo todos)))"

definition toggle_todo_status :: "state \<Rightarrow> int \<Rightarrow> int \<Rightarrow> (error + todo) \<times> state" where
  "toggle_todo_status st todo_id user_id =
     (let ((todos, _), st1) = get_user_todos st user_id in
      case map_of todos todo_id of
        None \<Rightarrow> (Inl (not_found todo_id), st1)
      | Some t \<Rightarrow>
          let t' = t\<lparr>t_completed := \<not> t_completed t\<rparr>
          in (Inr t', set_todos st1 user_id (AList.update todo_id t' todos)))"

definition delete_todo :: "state \<Rightarrow> int \<Rightarrow> int \<Rightarrow> (error + unit) \<times> state" where
  "delete_todo st todo_id user_id =
     (let ((todos, _), st1) = get_user_todos st user_id in
      case map_of todos todo_id of
        None \<Rightarrow> (Inl (not_found todo_id), st1)
      | Some _ \<Rightarrow> (Inr (), set_todos st1 user_id (AList.delete todo_id todos)))"

section \<open>The routes\<close>

text \<open>
  A request names its route and carries what the route reads: the bearer token, the path
  parameter, the decoded body and, where the handler draws them, the clock reading and the
  fresh token. A response is the status code of the route with its body.
\<close>

datatype request =
    Register UserRegister pystr pystr
  | Login UserLogin pystr
  | Logout pystr
  | Me pystr
  | CreateTodo pystr todo_body pystr
  | ListTodos pystr
  | GetTodo pystr int
  | ReplaceTodo pystr int todo_body
  | UpdateTodo pystr int TodoUpdate
  | ToggleTodo pystr int
  | DeleteTodo pystr int

datatype body =
    Token pystr
  | Message string
  | Profile user_data
  | Todo todo
  | Todos "todo list"
  | NoContent

type_synonym response = "int \<times> body"

definition respond :: "int \<Rightarrow> ('a \<Rightarrow> body) \<Rightarrow> (error + 'a) \<times> state \<Rightarrow> (error + response) \<times> state" where
  "respond code f r = (case fst r of Inl e \<Rightarrow> (Inl e, snd r) | Inr x \<Rightarrow> (Inr (code, f x), snd r))"

text \<open>
  The task routes declare \<open>response_model=TodoResponse\<close> (the list route a list of them).
  \<open>TodoResponse\<close> extends \<open>TodoBase\<close>, so what the handler returns is validated with the
  bounds and the title validator of \<open>TodoBase\<close> before it is sent, after the handler has
  written to the storage; the body sent is the validated model, with the stripped title.
\<close>

definition TodoResponse_validate :: "todo \<Rightarrow> error + todo" where
  "TodoResponse_validate t =
     (if length (t_title t) < 1 \<or> 100 < length (t_title t) then Inl ResponseValidationError
      else case validate_title (t_title t) of
        Inl _ \<Rightarrow> Inl ResponseValidationError
      | Inr trimmed \<Rightarrow>
          if (case t_description t of None \<Rightarrow> False | Some d \<Rightarrow> 500 < length d)
          then Inl ResponseValidationError
          else if t_priority t < 1 \<or> 5 < t_priority t then Inl ResponseValidationError
          else Inr (t\<lparr>t_title := trimmed\<rparr>))"

fun TodoResponse_validate_list :: "todo list \<Rightarrow> error + todo list" where
  "TodoResponse_validate_list [] = Inr []"
| "TodoResponse_validate_list (t # ts) =
     (case TodoResponse_validate t of
        Inl e \<Rightarrow> Inl e
      | Inr t' \<Rightarrow>
          (case TodoResponse_validate_list ts of Inl e \<Rightarrow> Inl e | Inr ts' \<Rightarrow> Inr (t' # ts')))"

definition respond_todo :: "int \<Rightarrow> (error + todo) \<times> state \<Rightarrow> (error + response) \<times> state" where
  "respond_todo code r =
     (case fst r of
        Inl e \<Rightarrow> (Inl e, snd r)
      | Inr t \<Rightarrow>
          (case TodoResponse_validate t of
             Inl e \<Rightarrow> (Inl e, snd r)
           | Inr t' \<Rightarrow> (Inr (code, Todo t'), snd r)))"

definition respond_todos :: "int \<Rightarrow> todo list \<times> state \<Rightarrow> (error + response) \<times> state" where
  "respond_todos code r =
     (case TodoResponse_validate_list (fst r) of
        Inl e \<Rightarrow> (Inl e, snd r)
      | Inr ts \<Rightarrow> (Inr (code, Todos ts), snd r))"

text \<open>
  The framework resolves the authentication dependency first, validates the body next and
  calls the handler next and validates its result against the response model last; a
  failure at one stage answers the request without running the later ones.
\<close>

fun handle ::
  "(pystr \<Rightarrow> pystr) \<Rightarrow> (pystr \<Rightarrow> pystr option) \<Rightarrow> state \<Rightarrow> request \<Rightarrow> (error + response) \<times> state" where
  "handle sha email_check st (Register b now token) =
     (case UserRegister_validate email_check b of
        Inl e \<Rightarrow> (Inl e, st)
      | Inr user \<Rightarrow> respond 200 Token (register sha st user now token))"
| "handle sha email_check st (Login user token) =
     respond 200 Token (login sha st user token)"
| "handle sha email_check st (Logout token) =
     (let (msg, st1) = logout st token in (Inr (200, Message msg), st1))"
| "handle sha email_check st (Me token) =
     (case get_current_user st token of
        Inl e \<Rightarrow> (Inl e, st)
      | Inr cu \<Rightarrow>
          (case get_current_user_info st cu of
             None \<Rightarrow> (Inl (HTTPException 500 ''Internal Server Error''), st)
           | Some u \<Rightarrow> (Inr (200, Profile u), st)))"
| "handle sha email_check st (CreateTodo token b now) =
     (case get_current_user st token of
        Inl e \<Rightarrow> (Inl e, st)
      | Inr cu \<Rightarrow>
          (case TodoCreate_validate b of
             Inl e \<Rightarrow> (Inl e, st)
           | Inr todo \<Rightarrow>
               (let (t, st1) = create_todo st todo (cu_id cu) now
                in respond_todo 201 (Inr t, st1))))"
| "handle sha email_check st (ListTodos token) =
     (case get_current_user st token of
        Inl e \<Rightarrow> (Inl e, st)
      | Inr cu \<Rightarrow> respond_todos 200 (list_todos st (cu_id cu)))"
| "handle sha email_check st (GetTodo token todo_id) =
     (case get_current_user st token of
        Inl e \<Rightarrow> (Inl e, st)
      | Inr cu \<Rightarrow> respond_todo 200 (get_todo st todo_id (cu_id cu)))"
| "handle sha email_check st (ReplaceTodo token todo_id b) =
     (case get_current_user st token of
        Inl e \<Rightarrow> (Inl e, st)
      | Inr cu \<Rightarrow>
          (case TodoCreate_validate b of
             Inl e \<Rightarrow> (Inl e, st)
           | Inr todo \<Rightarrow> respond_todo 200 (replace_todo st todo_id todo (cu_id cu))))"
| "handle sha email_check st (UpdateTodo token todo_id p) =
     (case get_current_user st token of
        Inl e \<Rightarrow> (Inl e, st)
      | Inr cu \<Rightarrow>
          (case TodoUpdate_validate p of
             Inl e \<Rightarrow> (Inl e, st)
           | Inr todo_update \<Rightarrow> respond_todo 200 (update_todo st todo_id todo_update (cu_id cu))))"
| "handle sha email_check st (ToggleTodo token todo_id) =
     (case get_current_user st token of
        Inl e \<Rightarrow> (Inl e, st)
      | Inr cu \<Rightarrow> respond_todo 200 (toggle_todo_status st todo_id (cu_id cu)))"
| "handle sha email_check st (DeleteTodo token todo_id) =
     (case get_current_user st token of
        Inl e \<Rightarrow> (Inl e, st)
      | Inr cu \<Rightarrow> respond 204 (\<lambda>_. NoContent) (delete_todo st todo_id (cu_id cu)))"

text \<open>A sequence of requests, served one after the other.\<close>

fun run ::
  "(pystr \<Rightarrow> pystr) \<Rightarrow> (pystr \<Rightarrow> pystr option) \<Rightarrow> state \<Rightarrow> request list
     \<Rightarrow> state \<times> (error + response) list" where
  "run sha email_check st [] = (st, [])"
| "run sha email_check st (r # rs) =
     (let (x, st1) = handle sha email_check st r;
          (st2, xs) = run sha email_check st1 rs
      in (st2, x # xs))"

section \<open>Observations on the storage\<close>

text \<open>The scope of a user, its next id, and the task stored under a user and an id.\<close>

definition todos_of :: "state \<Rightarrow> int \<Rightarrow> (int, todo) dict" where
  "todos_of st user_id = (case map_of (user_todos st) user_id of None \<Rightarrow> [] | Some todos \<Rightarrow> todos)"

definition next_id_of :: "state \<Rightarrow> int \<Rightarrow> int" where
  "next_id_of st user_id = (case map_of (current_todo_id st) user_id of None \<Rightarrow> 1 | Some n \<Rightarrow> n)"

definition stored_todo :: "state \<Rightarrow> int \<Rightarrow> int \<Rightarrow> todo option" where
  "stored_todo st user_id todo_id = map_of (todos_of st user_id) todo_id"

text \<open>What the storage holds for one user: the scope and the counter, present or not.\<close>

definition scope :: "state \<Rightarrow> int \<Rightarrow> (int, todo) dict option \<times> int option" where
  "scope st user_id = (map_of (user_todos st) user_id, map_of (current_todo_id st) user_id)"

text \<open>The ids that the answers to a sequence of requests report as created for a user.\<close>

fun created_id :: "int \<Rightarrow> error + response \<Rightarrow> int list" where
  "created_id u (Inr (code, Todo t)) = (if code = 201 \<and> t_user_id t = u then [t_id t] else [])"
| "created_id u _ = []"

definition created_ids :: "int \<Rightarrow> (error + response) list \<Rightarrow> int list" where
  "created_ids u xs = concat (map (created_id u) xs)"

section \<open>Example data\<close>

text \<open>
  The scenario of the specification: alice registers and creates the task "Buy milk".
  The digest and the e-mail check of the examples are stand-ins.
\<close>

definition demo_sha :: "pystr \<Rightarrow> pystr" where
  "demo_sha password = rev password"

definition demo_email :: "pystr \<Rightarrow> pystr option" where
  "demo_email e = Some e"

definition alice :: UserRegister where
  "alice = \<lparr>r_username = str ''alice'', r_email = str ''alice@x.com'', r_password = str ''secret1''\<rparr>"

definition bob :: UserRegister where
  "bob = \<lparr>r_username = str ''bob'', r_email = str ''bob@x.com'', r_password = str ''hunter22''\<rparr>"

definition buy_milk :: todo_body where
  "buy_milk = \<lparr>b_title = Some (str ''Buy milk''), b_description = None, b_due_date = None,
               b_priority = Some 2, b_completed = None\<rparr>"

definition milk :: todo where
  "milk = \<lparr>t_id = 1, t_user_id = 1, t_title = str ''Buy milk'', t_description = None,
           t_due_date = None, t_priority = 2, t_completed = False, t_created_at = str ''t1''\<rparr>"

definition alice_data :: user_data where
  "alice_data = \<lparr>u_id = 1, u_username = str ''alice'', u_email = str ''alice@x.com'',
                 u_password = demo_sha (str ''secret1''), u_created_at = str ''t0''\<rparr>"

text \<open>The storage after alice has registered with token \<open>A\<close> and created the task.\<close>

definition st_alice :: state where
  "st_alice = \<lparr>user_todos = [(1, [(1, milk)])], users_db = [(str ''alice'', alice_data)],
               sessions = [(str ''A'', 1)], current_user_id = 2, current_todo_id = [(1, 2)]\<rparr>"

text \<open>The same storage after bob has registered with token \<open>B\<close> as well.\<close>

definition bob_data :: user_data where
  "bob_data = \<lparr>u_id = 2, u_username = str ''bob'', u_email = str ''bob@x.com'',
               u_password = demo_sha (str ''hunter22''), u_created_at = str ''t2''\<rparr>"

definition st_alice_bob :: state where
  "st_alice_bob = \<lparr>user_todos = [(1, [(1, milk)]), (2, [])],
                   users_db = [(str ''alice'', alice_data), (str ''bob'', bob_data)],
                   sessions = [(str ''A'', 1), (str ''B'', 2)], current_user_id = 3,
                   current_todo_id = [(1, 2), (2, 1)]\<rparr>"


text \<open>The storage after bob has created a task as well: both scopes hold a task with id 1.\<close>

definition bread :: todo where
  "bread = \<lparr>t_id = 1, t_user_id = 2, t_title = str ''Buy bread'', t_description = None,
            t_due_date = None, t_priority = 3, t_completed = False, t_created_at = str ''t3''\<rparr>"

definition st_both :: state where
  "st_both = \<lparr>user_todos = [(1, [(1, milk)]), (2, [(1, bread)])],
              users_db = [(str ''alice'', alice_data), (str ''bob'', bob_data)],
              sessions = [(str ''A'', 1), (str ''B'', 2)], current_user_id = 3,
              current_todo_id = [(1, 2), (2, 2)]\<rparr>"

section \<open>An invariant of the storage\<close>

text \<open>
  Every registered user has an id below \<open>current_user_id\<close>, no scope holds a task and no
  counter has moved for an id that has not been given to a user yet, and every id in a
  scope is below the counter of the scope.
\<close>

definition storage_inv :: "state \<Rightarrow> bool" where
  "storage_inv st \<longleftrightarrow>
     (\<forall>ud \<in> snd ` set (users_db st). u_id ud < current_user_id st)
     \<and> (\<forall>n. current_user_id st \<le> n \<longrightarrow> todos_of st n = [] \<and> next_id_of st n = 1)
     \<and> (\<forall>u. \<forall>i \<in> fst ` set (todos_of st u). i < next_id_of st u)"

section \<open>Evaluation on concrete inputs\<close>

lemmas demo_defs = demo_sha_def demo_email_def alice_def bob_def buy_milk_def milk_def
  alice_data_def bob_data_def st_alice_def st_alice_bob_def str_def init_def

lemmas eval_defs = UserRegister_validate_def respond_def respond_todo_def respond_todos_def
  TodoResponse_validate_def register_def login_def logout_def
  get_current_user_def TodoCreate_validate_def TodoUpdate_validate_def validate_title_def
  strip_def isspace_def create_todo_def get_user_todos_def set_todos_def toggle_todo_status_def
  delete_todo_def get_todo_def replace_todo_def update_todo_def apply_update_def list_todos_def
  hash_password_def unauthorized_def todos_of_def next_id_of_def stored_todo_def scope_def
  created_ids_def Let_def

lemma st_alice_reached:
  "fst (run demo_sha demo_email init
      [Register alice (str ''t0'') (str ''A''), CreateTodo (str ''A'') buy_milk (str ''t1'')]) = st_alice"
  by (simp add: demo_defs eval_defs)

lemma st_alice_bob_reached:
  "fst (run demo_sha demo_email st_alice [Register bob (str ''t2'') (str ''B'')]) = st_alice_bob"
  by (simp add: demo_defs eval_defs)

section \<open>The scope lookup\<close>

lemma get_user_todos_fst [simp]:
  "fst (get_user_todos st u) = (todos_of st u, next_id_of st u)"
  by (simp add: get_user_todos_def todos_of_def next_id_of_def Let_def AList.update_conv'
      split: option.splits)

lemma get_user_todos_snd:
  "snd (get_user_todos st u) =
     st\<lparr>user_todos := (case map_of (user_todos st) u of
                          None \<Rightarrow> AList.update u [] (user_todos st) | Some _ \<Rightarrow> user_todos st),
        current_todo_id := (case map_of (current_todo_id st) u of
                          None \<Rightarrow> AList.update u 1 (current_todo_id st) | Some _ \<Rightarrow> current_todo_id st)\<rparr>"
  by (simp add: get_user_todos_def Let_def split: option.splits)

lemma get_user_todos_eq:
  "get_user_todos st u = ((todos_of st u, next_id_of st u), snd (get_user_todos st u))"
  using get_user_todos_fst [of st u] by (cases "get_user_todos st u") simp

lemma todos_of_get_user_todos [simp]:
  "todos_of (snd (get_user_todos st u)) v = todos_of st v"
  by (simp add: get_user_todos_snd todos_of_def AList.update_conv' split: option.splits)

lemma next_id_of_get_user_todos [simp]:
  "next_id_of (snd (get_user_todos st u)) v = next_id_of st v"
  by (simp add: get_user_todos_snd next_id_of_def AList.update_conv' split: option.splits)

lemma scope_get_user_todos [simp]:
  "u \<noteq> v \<Longrightarrow> scope (snd (get_user_todos st u)) v = scope st v"
  by (simp add: get_user_todos_snd scope_def AList.update_conv' split: option.splits)

lemma todos_of_set_todos [simp]:
  "todos_of (set_todos st u ts) v = (if v = u then ts else todos_of st v)"
  by (simp add: set_todos_def todos_of_def AList.update_conv')

lemma next_id_of_set_todos [simp]:
  "next_id_of (set_todos st u ts) v = next_id_of st v"
  by (simp add: set_todos_def next_id_of_def)

lemma user_todos_set_todos [simp]:
  "user_todos (set_todos st u ts) = AList.update u ts (user_todos st)"
  by (simp add: set_todos_def)

lemma current_todo_id_set_todos [simp]:
  "current_todo_id (set_todos st u ts) = current_todo_id st"
  by (simp add: set_todos_def)

lemma map_of_update_other:
  "u \<noteq> v \<Longrightarrow> map_of (AList.update u x al) v = map_of al v"
  by (simp add: AList.update_conv')

lemma scope_set_todos [simp]:
  "u \<noteq> v \<Longrightarrow> scope (set_todos st u ts) v = scope st v"
  unfolding scope_def by (simp add: map_of_update_other)

section \<open>Login\<close>

text \<open>
  Claim C6. A login with an unknown username, or with a password whose hash differs from
  the stored one, fails; both failures are the same exception, status 401 with the detail
  "Invalid username or password", and no session is created.
\<close>

theorem login_generic_failure:
  assumes "map_of (users_db st) (l_username user) = None
     \<or> (\<exists>stored_user. map_of (users_db st) (l_username user) = Some stored_user
           \<and> u_password stored_user \<noteq> hash_password sha (l_password user))"
  shows "login sha st user token = (Inl (HTTPException 401 ''Invalid username or password''), st)"
  using assms by (auto simp: login_def unauthorized_def)

theorem login_generic_failure_witness:
  "login demo_sha st_alice \<lparr>l_username = str ''carol'', l_password = str ''secret1''\<rparr> (str ''C'')
     = (Inl (HTTPException 401 ''Invalid username or password''), st_alice)
   \<and> login demo_sha st_alice \<lparr>l_username = str ''alice'', l_password = str ''secret2''\<rparr> (str ''C'')
     = (Inl (HTTPException 401 ''Invalid username or password''), st_alice)
   \<and> map_of (users_db st_alice) (str ''carol'') = None
   \<and> map_of (users_db st_alice) (str ''alice'') = Some alice_data
   \<and> u_password alice_data \<noteq> hash_password demo_sha (str ''secret2'')"
  using login_generic_failure [of st_alice "\<lparr>l_username = str ''carol'', l_password = str ''secret1''\<rparr>"
          demo_sha "str ''C''"]
        login_generic_failure [of st_alice "\<lparr>l_username = str ''alice'', l_password = str ''secret2''\<rparr>"
          demo_sha "str ''C''"]
  by (simp add: demo_defs hash_password_def)

section \<open>Register\<close>

text \<open>
  Claim C9. When \<open>register\<close> fails, it fails with "Username already exists" because the
  username is taken, and the whole storage (users, sessions, scopes, both counters) is
  the storage it was called with.
\<close>

theorem register_duplicate_atomic:
  assumes "fst (register sha st user now token) = Inl e"
  shows "e = HTTPException 400 ''Username already exists''
     \<and> r_username user \<in> fst ` set (users_db st)
     \<and> register sha st user now token = (Inl e, st)"
  using assms by (simp add: register_def Let_def split: if_splits)

theorem register_duplicate_atomic_witness:
  "fst (register demo_sha st_alice alice (str ''t3'') (str ''C''))
     = Inl (HTTPException 400 ''Username already exists'')
   \<and> register demo_sha st_alice alice (str ''t3'') (str ''C'')
       = (Inl (HTTPException 400 ''Username already exists''), st_alice)"
proof -
  have h: "fst (register demo_sha st_alice alice (str ''t3'') (str ''C''))
     = Inl (HTTPException 400 ''Username already exists'')"
    by (simp add: register_def demo_defs)
  show ?thesis
    using h register_duplicate_atomic [OF h] by simp
qed

text \<open>
  Claim C10. A registration whose password has fewer than 6 characters is rejected with a
  validation error, and the storage is unchanged.
\<close>

theorem register_short_password:
  "length (r_password b) < 6 \<Longrightarrow>
   handle sha email_check st (Register b now token) = (Inl ValidationError, st)"
  by (simp add: UserRegister_validate_def split: option.splits)

theorem register_short_password_witness:
  "length (r_password (bob\<lparr>r_password := str ''12345''\<rparr>)) < 6
   \<and> handle demo_sha demo_email st_alice (Register (bob\<lparr>r_password := str ''12345''\<rparr>) (str ''t3'') (str ''C''))
       = (Inl ValidationError, st_alice)"
  using register_short_password [of "bob\<lparr>r_password := str ''12345''\<rparr>" demo_sha demo_email st_alice
          "str ''t3''" "str ''C''"]
  by (simp add: demo_defs)



section \<open>Partial update\<close>

lemma stored_todo_set_todos [simp]:
  "stored_todo (set_todos st u ts) v i = (if v = u then map_of ts i else stored_todo st v i)"
  by (simp add: stored_todo_def)

lemma stored_todo_get_user_todos [simp]:
  "stored_todo (snd (get_user_todos st u)) v i = stored_todo st v i"
  by (simp add: stored_todo_def)

lemma update_todo_eq:
  "update_todo st todo_id p user_id =
     (case stored_todo st user_id todo_id of
        None \<Rightarrow> (Inl (not_found todo_id), snd (get_user_todos st user_id))
      | Some t \<Rightarrow> (Inr (apply_update p t),
          set_todos (snd (get_user_todos st user_id)) user_id
            (AList.update todo_id (apply_update p t) (todos_of st user_id))))"
proof -
  obtain st1 where "get_user_todos st user_id = ((todos_of st user_id, next_id_of st user_id), st1)"
    using get_user_todos_eq by blast
  then show ?thesis
    by (simp add: update_todo_def stored_todo_def Let_def split: option.splits)
qed

text \<open>
  Claim C4. A partial update of an existing task succeeds and stores the task it returns;
  a field of the patch that carries a value replaces the task's field, a field that is
  null or was not sent leaves it as it was, and the id, the owner and the creation time
  are unchanged.
\<close>

theorem update_todo_fields:
  assumes "stored_todo st user_id todo_id = Some t"
  shows "\<exists>t' st'. update_todo st todo_id p user_id = (Inr t', st')
     \<and> stored_todo st' user_id todo_id = Some t'
     \<and> t_title t' = (case p_title p of Val v \<Rightarrow> v | Null \<Rightarrow> t_title t | Unset \<Rightarrow> t_title t)
     \<and> t_description t' =
         (case p_description p of Val v \<Rightarrow> Some v | Null \<Rightarrow> t_description t | Unset \<Rightarrow> t_description t)
     \<and> t_due_date t' =
         (case p_due_date p of Val v \<Rightarrow> Some v | Null \<Rightarrow> t_due_date t | Unset \<Rightarrow> t_due_date t)
     \<and> t_priority t' = (case p_priority p of Val v \<Rightarrow> v | Null \<Rightarrow> t_priority t | Unset \<Rightarrow> t_priority t)
     \<and> t_completed t' =
         (case p_completed p of Val v \<Rightarrow> v | Null \<Rightarrow> t_completed t | Unset \<Rightarrow> t_completed t)
     \<and> t_id t' = t_id t \<and> t_user_id t' = t_user_id t \<and> t_created_at t' = t_created_at t"
  using assms
  by (simp add: update_todo_eq AList.update_conv' apply_update_def Let_def split: field.splits)

theorem update_todo_fields_witness:
  "stored_todo st_alice 1 1 = Some milk
   \<and> (\<exists>t' st'. update_todo st_alice 1
          \<lparr>p_title = Null, p_description = Val (str ''2 l''), p_due_date = Unset,
           p_priority = Unset, p_completed = Val False\<rparr> 1 = (Inr t', st')
        \<and> t' = milk\<lparr>t_description := Some (str ''2 l'')\<rparr>)"
  using update_todo_fields [of st_alice 1 1 milk
          "\<lparr>p_title = Null, p_description = Val (str ''2 l''), p_due_date = Unset,
            p_priority = Unset, p_completed = Val False\<rparr>"]
  by (simp add: demo_defs eval_defs)

section \<open>Toggle and logout\<close>

lemma toggle_todo_status_eq:
  "toggle_todo_status st todo_id user_id =
     (case stored_todo st user_id todo_id of
        None \<Rightarrow> (Inl (not_found todo_id), snd (get_user_todos st user_id))
      | Some t \<Rightarrow> (Inr (t\<lparr>t_completed := \<not> t_completed t\<rparr>),
          set_todos (snd (get_user_todos st user_id)) user_id
            (AList.update todo_id (t\<lparr>t_completed := \<not> t_completed t\<rparr>) (todos_of st user_id))))"
proof -
  obtain st1 where "get_user_todos st user_id = ((todos_of st user_id, next_id_of st user_id), st1)"
    using get_user_todos_eq by blast
  then show ?thesis
    by (simp add: toggle_todo_status_def stored_todo_def Let_def split: option.splits)
qed

lemma logout_twice:
  "logout (snd (logout st token)) token = (''Logged out successfully'', snd (logout st token))"
  by (simp add: logout_def AList.delete_notin_dom)

text \<open>
  Claim C8. Toggling an existing task stores and returns it with \<open>completed\<close> negated, and
  toggling it again stores and returns the original task. A logout always answers
  "Logged out successfully"; after it the token has no session, a second logout with the
  same token answers the same and leaves the storage as the first one left it, and a
  logout with a token that has no session leaves the storage unchanged.
\<close>

theorem toggle_logout_idempotent:
  "(\<forall>t. stored_todo st user_id todo_id = Some t \<longrightarrow>
      (\<exists>st1 st2. toggle_todo_status st todo_id user_id
                    = (Inr (t\<lparr>t_completed := \<not> t_completed t\<rparr>), st1)
          \<and> stored_todo st1 user_id todo_id = Some (t\<lparr>t_completed := \<not> t_completed t\<rparr>)
          \<and> toggle_todo_status st1 todo_id user_id = (Inr t, st2)
          \<and> stored_todo st2 user_id todo_id = Some t))
   \<and> fst (logout st token) = ''Logged out successfully''
   \<and> logout (snd (logout st token)) token = (''Logged out successfully'', snd (logout st token))
   \<and> (token \<notin> fst ` set (sessions st) \<longrightarrow> logout st token = (''Logged out successfully'', st))
   \<and> map_of (sessions (snd (logout st token))) token = None"
  by (simp add: toggle_todo_status_eq logout_twice AList.update_conv')
     (simp add: logout_def AList.delete_notin_dom map_of_eq_None_iff)


theorem toggle_logout_idempotent_witness:
  "stored_todo st_alice 1 1 = Some milk
   \<and> (\<exists>st1 st2. toggle_todo_status st_alice 1 1 = (Inr (milk\<lparr>t_completed := True\<rparr>), st1)
        \<and> toggle_todo_status st1 1 1 = (Inr milk, st2))
   \<and> str ''Z'' \<notin> fst ` set (sessions st_alice)
   \<and> logout st_alice (str ''Z'') = (''Logged out successfully'', st_alice)
   \<and> logout (snd (logout st_alice (str ''A''))) (str ''A'')
       = (''Logged out successfully'', st_alice\<lparr>sessions := []\<rparr>)"
proof -
  have h: "stored_todo st_alice 1 1 = Some milk"
    by (simp add: stored_todo_def todos_of_def demo_defs)
  have c: "t_completed milk = False"
    by (simp add: milk_def)
  have z: "str ''Z'' \<notin> fst ` set (sessions st_alice)"
    by (simp add: demo_defs)
  have l: "snd (logout st_alice (str ''A'')) = st_alice\<lparr>sessions := []\<rparr>"
    by (simp add: logout_def demo_defs)
  show ?thesis
    using h c z l toggle_logout_idempotent [of st_alice 1 1 "str ''Z''"]
      toggle_logout_idempotent [of st_alice 1 1 "str ''A''"]
    by auto
qed

section \<open>Create\<close>

lemma create_todo_eq:
  "create_todo st todo user_id now =
     (let new_todo = \<lparr>t_id = next_id_of st user_id, t_user_id = user_id, t_title = title todo,
                      t_description = description todo, t_due_date = due_date todo,
                      t_priority = priority todo, t_completed = completed todo,
                      t_created_at = now\<rparr>;
          st2 = set_todos (snd (get_user_todos st user_id)) user_id
                  (AList.update (next_id_of st user_id) new_todo (todos_of st user_id))
      in (new_todo,
          st2\<lparr>current_todo_id :=
                 AList.update user_id (next_id_of st user_id + 1) (current_todo_id st2)\<rparr>))"
proof -
  obtain st1 where "get_user_todos st user_id = ((todos_of st user_id, next_id_of st user_id), st1)"
    using get_user_todos_eq by blast
  then show ?thesis
    by (simp add: create_todo_def Let_def)
qed

lemma todos_of_current_todo_id_update [simp]:
  "todos_of (st\<lparr>current_todo_id := c\<rparr>) u = todos_of st u"
  by (simp add: todos_of_def)

lemma stored_todo_current_todo_id_update [simp]:
  "stored_todo (st\<lparr>current_todo_id := c\<rparr>) u i = stored_todo st u i"
  by (simp add: stored_todo_def)

lemma stored_todo_create_todo:
  "stored_todo (snd (create_todo st todo u now)) u (t_id (fst (create_todo st todo u now)))
     = Some (fst (create_todo st todo u now))"
  by (simp add: create_todo_eq Let_def AList.update_conv')

lemma strip_whitespace_only: "strip v = [] \<longleftrightarrow> (\<forall>c\<in>set v. isspace c)"
proof -
  let ?w = "dropWhile isspace v"
  have 1: "strip v = [] \<longleftrightarrow> (\<forall>x\<in>set ?w. isspace x)"
    unfolding strip_def by (simp only: rev_is_Nil_conv dropWhile_eq_Nil_conv set_rev)
  have 2: "(\<forall>x\<in>set ?w. isspace x) \<longleftrightarrow> ?w = []"
  proof
    assume h: "\<forall>x\<in>set ?w. isspace x"
    show "?w = []"
    proof (rule ccontr)
      assume n: "?w \<noteq> []"
      then have "\<not> isspace (hd ?w)"
        by (rule hd_dropWhile)
      moreover have "hd ?w \<in> set ?w"
        using n by (rule hd_in_set)
      ultimately show False
        using h by blast
    qed
  next
    assume "?w = []"
    then show "\<forall>x\<in>set ?w. isspace x"
      by (metis empty_iff empty_set)
  qed
  have 3: "?w = [] \<longleftrightarrow> (\<forall>c\<in>set v. isspace c)"
    by (rule dropWhile_eq_Nil_conv)
  from 1 2 3 show ?thesis
    by blast
qed

lemma length_strip: "length (strip v) \<le> length v"
proof -
  have "length (strip v) \<le> length (dropWhile isspace v)"
    unfolding strip_def using length_dropWhile_le [of isspace "rev (dropWhile isspace v)"] by simp
  also have "\<dots> \<le> length v"
    by (rule length_dropWhile_le)
  finally show ?thesis .
qed

lemma last_dropWhile: "dropWhile P xs \<noteq> [] \<Longrightarrow> last (dropWhile P xs) = last xs"
  by (induction xs) auto

lemma strip_strip: "strip (strip v) = strip v"
proof -
  let ?w = "dropWhile isspace v"
  let ?u = "dropWhile isspace (rev ?w)"
  have s: "strip v = rev ?u"
    by (simp add: strip_def)
  have "dropWhile isspace (rev ?u) = rev ?u"
  proof (cases "?u = []")
    case True
    then show ?thesis
      by (metis dropWhile.simps(1) rev.simps(1))
  next
    case False
    then have w: "?w \<noteq> []"
      by (metis dropWhile.simps(1) rev.simps(1))
    have "hd (rev ?u) = last ?u"
      using False by (simp add: hd_rev)
    also have "\<dots> = last (rev ?w)"
      using False by (rule last_dropWhile)
    also have "\<dots> = hd ?w"
      using w by (simp add: last_rev)
    finally have "\<not> isspace (hd (rev ?u))"
      using hd_dropWhile [OF w] by simp
    then show ?thesis
      by (simp only: dropWhile_eq_self_iff) simp
  qed
  then have "strip (strip v) = rev (dropWhile isspace (rev (rev ?u)))"
    unfolding s strip_def by (simp only:)
  also have "\<dots> = rev ?u"
    by (simp only: rev_rev_ident dropWhile_idem)
  finally show ?thesis
    using s by simp
qed

lemma TodoCreate_validate_Inr:
  assumes "TodoCreate_validate b = Inr todo"
  shows "\<exists>v. b_title b = Some v \<and> title todo = strip v \<and> strip v \<noteq> [] \<and> length v \<le> 100
     \<and> description todo = b_description b \<and> due_date todo = b_due_date b
     \<and> (\<forall>d. description todo = Some d \<longrightarrow> length d \<le> 500)
     \<and> 1 \<le> priority todo \<and> priority todo \<le> 5"
  using assms
  by (auto simp: TodoCreate_validate_def validate_title_def Let_def
      split: option.splits if_splits)

lemma TodoResponse_validate_ok:
  assumes "t_title t = strip v" "strip v \<noteq> []" "length v \<le> 100"
    and "\<forall>d. t_description t = Some d \<longrightarrow> length d \<le> 500"
    and "1 \<le> t_priority t" "t_priority t \<le> 5"
  shows "TodoResponse_validate t = Inr t"
proof -
  have "length (t_title t) \<le> 100"
    using assms(1,3) length_strip [of v] by simp
  moreover have "t_title t \<noteq> []"
    using assms(1,2) by simp
  moreover have "strip (t_title t) = t_title t"
    using assms(1) by (simp add: strip_strip)
  ultimately show ?thesis
    using assms(4-6)
    by (cases "t_description t")
       (auto simp: TodoResponse_validate_def validate_title_def Let_def Suc_le_eq
          simp flip: length_greater_0_conv)
qed

lemma TodoResponse_validate_created:
  assumes "TodoCreate_validate b = Inr todo"
  shows "TodoResponse_validate (fst (create_todo st todo u now)) = Inr (fst (create_todo st todo u now))"
proof -
  from TodoCreate_validate_Inr [OF assms] obtain v where
    "title todo = strip v" "strip v \<noteq> []" "length v \<le> 100"
    "\<forall>d. description todo = Some d \<longrightarrow> length d \<le> 500"
    "1 \<le> priority todo" "priority todo \<le> 5"
    by blast
  then show ?thesis
    by (intro TodoResponse_validate_ok [of _ v]) (simp_all add: create_todo_eq Let_def)
qed

text \<open>
  Claim C5. For an authenticated user, creating a task whose title is empty after
  \<open>strip\<close>, or whose priority is 0 or 6, is rejected with a validation error and the
  storage is unchanged; with priority 1 or 5 and otherwise valid fields it answers 201
  with the task, which is then stored under the user and the returned id.
\<close>

theorem create_todo_boundary:
  assumes "get_current_user st token = Inr cu"
  shows "(strip v = [] \<longrightarrow>
            handle sha email_check st (CreateTodo token (b\<lparr>b_title := Some v\<rparr>) now)
              = (Inl ValidationError, st))
     \<and> (p = 0 \<or> p = 6 \<longrightarrow>
            handle sha email_check st (CreateTodo token (b\<lparr>b_priority := Some p\<rparr>) now)
              = (Inl ValidationError, st))
     \<and> ((p = 1 \<or> p = 5) \<and> b_title b = Some v \<and> length v \<le> 100 \<and> strip v \<noteq> []
          \<and> (\<forall>d. b_description b = Some d \<longrightarrow> length d \<le> 500) \<longrightarrow>
            (\<exists>t st'. handle sha email_check st (CreateTodo token (b\<lparr>b_priority := Some p\<rparr>) now)
                        = (Inr (201, Todo t), st')
               \<and> stored_todo st' (cu_id cu) (t_id t) = Some t
               \<and> t_priority t = p \<and> t_title t = strip v \<and> t_user_id t = cu_id cu))"
proof (intro conjI impI)
  assume "strip v = []"
  then show "handle sha email_check st (CreateTodo token (b\<lparr>b_title := Some v\<rparr>) now)
      = (Inl ValidationError, st)"
    using assms by (simp add: TodoCreate_validate_def validate_title_def)
next
  assume "p = 0 \<or> p = 6"
  then show "handle sha email_check st (CreateTodo token (b\<lparr>b_priority := Some p\<rparr>) now)
      = (Inl ValidationError, st)"
    using assms
    by (auto simp: TodoCreate_validate_def validate_title_def Let_def split: option.splits)
next
  assume a: "(p = 1 \<or> p = 5) \<and> b_title b = Some v \<and> length v \<le> 100 \<and> strip v \<noteq> []
    \<and> (\<forall>d. b_description b = Some d \<longrightarrow> length d \<le> 500)"
  then have "v \<noteq> []"
    by (auto simp: strip_def)
  with a have val: "TodoCreate_validate (b\<lparr>b_priority := Some p\<rparr>) =
      Inr \<lparr>title = strip v, description = b_description b, due_date = b_due_date b,
           priority = p, completed = (case b_completed b of None \<Rightarrow> False | Some c \<Rightarrow> c)\<rparr>"
    by (cases "b_description b")
       (auto simp: TodoCreate_validate_def validate_title_def Let_def Suc_le_eq)
  obtain t st' where c: "create_todo st
      \<lparr>title = strip v, description = b_description b, due_date = b_due_date b,
       priority = p, completed = (case b_completed b of None \<Rightarrow> False | Some c \<Rightarrow> c)\<rparr>
      (cu_id cu) now = (t, st')"
    by (cases "create_todo st
      \<lparr>title = strip v, description = b_description b, due_date = b_due_date b,
       priority = p, completed = (case b_completed b of None \<Rightarrow> False | Some c \<Rightarrow> c)\<rparr>
      (cu_id cu) now") blast
  have "stored_todo st' (cu_id cu) (t_id t) = Some t"
    using stored_todo_create_todo [of st _ "cu_id cu" now] c
    by (metis fst_conv snd_conv)
  moreover have "t_priority t = p \<and> t_title t = strip v \<and> t_user_id t = cu_id cu"
    using c by (auto simp: create_todo_eq Let_def)
  moreover have "TodoResponse_validate t = Inr t"
    using TodoResponse_validate_created [OF val, of st "cu_id cu" now] c by simp
  ultimately show "\<exists>t st'. handle sha email_check st (CreateTodo token (b\<lparr>b_priority := Some p\<rparr>) now)
        = (Inr (201, Todo t), st')
      \<and> stored_todo st' (cu_id cu) (t_id t) = Some t
      \<and> t_priority t = p \<and> t_title t = strip v \<and> t_user_id t = cu_id cu"
    using assms val c by (simp add: respond_todo_def)
qed


theorem create_todo_boundary_witness:
  "get_current_user st_alice (str ''A'') = Inr \<lparr>cu_id = 1, cu_username = Some (str ''alice'')\<rparr>
   \<and> handle demo_sha demo_email st_alice
        (CreateTodo (str ''A'') (buy_milk\<lparr>b_title := Some (str ''   '')\<rparr>) (str ''t3''))
       = (Inl ValidationError, st_alice)
   \<and> handle demo_sha demo_email st_alice
        (CreateTodo (str ''A'') (buy_milk\<lparr>b_priority := Some 0\<rparr>) (str ''t3''))
       = (Inl ValidationError, st_alice)
   \<and> handle demo_sha demo_email st_alice
        (CreateTodo (str ''A'') (buy_milk\<lparr>b_priority := Some 6\<rparr>) (str ''t3''))
       = (Inl ValidationError, st_alice)
   \<and> (\<exists>t st'. handle demo_sha demo_email st_alice
                 (CreateTodo (str ''A'') (buy_milk\<lparr>b_priority := Some 1\<rparr>) (str ''t3''))
               = (Inr (201, Todo t), st') \<and> t_priority t = 1)
   \<and> (\<exists>t st'. handle demo_sha demo_email st_alice
                 (CreateTodo (str ''A'') (buy_milk\<lparr>b_priority := Some 5\<rparr>) (str ''t3''))
               = (Inr (201, Todo t), st') \<and> t_priority t = 5)"
proof -
  have g: "get_current_user st_alice (str ''A'') = Inr \<lparr>cu_id = 1, cu_username = Some (str ''alice'')\<rparr>"
    by (simp add: get_current_user_def demo_defs)
  have w: "strip (str ''   '') = []"
    by (simp add: strip_def isspace_def str_def)
  have v: "b_title buy_milk = Some (str ''Buy milk'') \<and> length (str ''Buy milk'') \<le> 100
      \<and> strip (str ''Buy milk'') \<noteq> [] \<and> (\<forall>d. b_description buy_milk = Some d \<longrightarrow> length d \<le> 500)"
    by (simp add: strip_def isspace_def str_def buy_milk_def)
  show ?thesis
    using g w v
      create_todo_boundary [OF g, of "str ''   ''" demo_sha demo_email buy_milk "str ''t3''" 0]
      create_todo_boundary [OF g, of "str ''Buy milk''" demo_sha demo_email buy_milk "str ''t3''" 6]
      create_todo_boundary [OF g, of "str ''Buy milk''" demo_sha demo_email buy_milk "str ''t3''" 1]
      create_todo_boundary [OF g, of "str ''Buy milk''" demo_sha demo_email buy_milk "str ''t3''" 5]
    by (simp del: handle.simps) blast
qed

section \<open>Validation of a partial update\<close>

text \<open>
  Claim C1 fails on the code. \<open>TodoUpdate\<close> repeats the length bounds of the title but
  not the validator that strips it and rejects an empty result. The patch whose title is
  three spaces passes \<open>TodoUpdate_validate\<close>, and \<open>update_todo\<close> stores that title as it
  is on alice's task, although it is empty after \<open>strip\<close>. The request is not answered
  with a validation error: the stored task then fails the response model, after the
  write. The replace route rejects the same title and leaves the storage unchanged.
\<close>

theorem update_todo_whitespace_title:
  "TodoUpdate_validate
     \<lparr>p_title = Val (str ''   ''), p_description = Unset, p_due_date = Unset,
      p_priority = Unset, p_completed = Unset\<rparr>
     = Inr \<lparr>p_title = Val (str ''   ''), p_description = Unset, p_due_date = Unset,
            p_priority = Unset, p_completed = Unset\<rparr>
   \<and> update_todo st_alice 1
       \<lparr>p_title = Val (str ''   ''), p_description = Unset, p_due_date = Unset,
        p_priority = Unset, p_completed = Unset\<rparr> 1
     = (Inr (milk\<lparr>t_title := str ''   ''\<rparr>),
        st_alice\<lparr>user_todos := [(1, [(1, milk\<lparr>t_title := str ''   ''\<rparr>)])]\<rparr>)
   \<and> stored_todo (st_alice\<lparr>user_todos := [(1, [(1, milk\<lparr>t_title := str ''   ''\<rparr>)])]\<rparr>) 1 1
     = Some (milk\<lparr>t_title := str ''   ''\<rparr>)
   \<and> strip (str ''   '') = []
   \<and> handle demo_sha demo_email st_alice
       (UpdateTodo (str ''A'') 1
          \<lparr>p_title = Val (str ''   ''), p_description = Unset, p_due_date = Unset,
           p_priority = Unset, p_completed = Unset\<rparr>)
     = (Inl ResponseValidationError,
        st_alice\<lparr>user_todos := [(1, [(1, milk\<lparr>t_title := str ''   ''\<rparr>)])]\<rparr>)
   \<and> handle demo_sha demo_email st_alice
       (ReplaceTodo (str ''A'') 1 (buy_milk\<lparr>b_title := Some (str ''   '')\<rparr>))
     = (Inl ValidationError, st_alice)"
  by (simp add: demo_defs eval_defs)

section \<open>Isolation of the scopes\<close>

lemma list_todos_eq:
  "list_todos st u = (map snd (todos_of st u), snd (get_user_todos st u))"
proof -
  obtain st1 where "get_user_todos st u = ((todos_of st u, next_id_of st u), st1)"
    using get_user_todos_eq by blast
  then show ?thesis
    by (simp add: list_todos_def)
qed

lemma get_todo_eq:
  "get_todo st todo_id u =
     (case stored_todo st u todo_id of
        None \<Rightarrow> (Inl (not_found todo_id), snd (get_user_todos st u))
      | Some t \<Rightarrow> (Inr t, snd (get_user_todos st u)))"
proof -
  obtain st1 where "get_user_todos st u = ((todos_of st u, next_id_of st u), st1)"
    using get_user_todos_eq by blast
  then show ?thesis
    by (simp add: get_todo_def stored_todo_def split: option.splits)
qed

lemma replace_todo_eq:
  "replace_todo st todo_id todo u =
     (case stored_todo st u todo_id of
        None \<Rightarrow> (Inl (not_found todo_id), snd (get_user_todos st u))
      | Some old \<Rightarrow>
          (Inr \<lparr>t_id = todo_id, t_user_id = u, t_title = title todo,
                t_description = description todo, t_due_date = due_date todo,
                t_priority = priority todo, t_completed = completed todo,
                t_created_at = t_created_at old\<rparr>,
           set_todos (snd (get_user_todos st u)) u
             (AList.update todo_id
                \<lparr>t_id = todo_id, t_user_id = u, t_title = title todo,
                 t_description = description todo, t_due_date = due_date todo,
                 t_priority = priority todo, t_completed = completed todo,
                 t_created_at = t_created_at old\<rparr> (todos_of st u))))"
proof -
  obtain st1 where "get_user_todos st u = ((todos_of st u, next_id_of st u), st1)"
    using get_user_todos_eq by blast
  then show ?thesis
    by (simp add: replace_todo_def stored_todo_def Let_def split: option.splits)
qed

lemma delete_todo_eq:
  "delete_todo st todo_id u =
     (case stored_todo st u todo_id of
        None \<Rightarrow> (Inl (not_found todo_id), snd (get_user_todos st u))
      | Some t \<Rightarrow> (Inr (), set_todos (snd (get_user_todos st u)) u
                             (AList.delete todo_id (todos_of st u))))"
proof -
  obtain st1 where "get_user_todos st u = ((todos_of st u, next_id_of st u), st1)"
    using get_user_todos_eq by blast
  then show ?thesis
    by (simp add: delete_todo_def stored_todo_def split: option.splits)
qed

lemmas todo_op_eqs = list_todos_eq get_todo_eq replace_todo_eq update_todo_eq
  toggle_todo_status_eq delete_todo_eq

lemma snd_respond [simp]: "snd (respond code f r) = snd r"
  by (simp add: respond_def split: sum.splits)

lemma snd_respond_todo [simp]: "snd (respond_todo code r) = snd r"
  by (simp add: respond_todo_def split: sum.splits)

lemma snd_respond_todos [simp]: "snd (respond_todos code r) = snd r"
  by (simp add: respond_todos_def split: sum.splits)




lemma get_current_user_cong:
  assumes "sessions st' = sessions st" and "users_db st' = users_db st"
  shows "get_current_user st' token = get_current_user st token"
  unfolding get_current_user_def assms ..

lemma get_current_user_set_todos [simp]:
  "get_current_user (set_todos st u ts) token = get_current_user st token"
  by (rule get_current_user_cong) (simp_all add: set_todos_def)





lemma st_both_reached:
  "fst (run demo_sha demo_email st_alice_bob
      [CreateTodo (str ''B'') (buy_milk\<lparr>b_title := Some (str ''Buy bread''), b_priority := None\<rparr>)
         (str ''t3'')]) = st_both"
  by (simp add: demo_defs bread_def st_both_def eval_defs)


section \<open>The invariant of the storage\<close>

lemma users_db_get_user_todos [simp]: "users_db (snd (get_user_todos st u)) = users_db st"
  by (simp add: get_user_todos_snd)

lemma current_user_id_get_user_todos [simp]:
  "current_user_id (snd (get_user_todos st u)) = current_user_id st"
  by (simp add: get_user_todos_snd)

lemma users_db_set_todos [simp]: "users_db (set_todos st u ts) = users_db st"
  by (simp add: set_todos_def)

lemma current_user_id_set_todos [simp]: "current_user_id (set_todos st u ts) = current_user_id st"
  by (simp add: set_todos_def)

lemma next_id_of_current_todo_id_update:
  "next_id_of (st\<lparr>current_todo_id := AList.update u k (current_todo_id st')\<rparr>) v
     = (if v = u then k else next_id_of st' v)"
  by (simp add: next_id_of_def AList.update_conv')

lemma next_id_of_create_todo:
  "next_id_of (snd (create_todo st todo u now)) v
     = (if v = u then next_id_of st u + 1 else next_id_of st v)"
proof -
  have "current_todo_id (set_todos (snd (get_user_todos st u)) u ts)
      = current_todo_id (snd (get_user_todos st u))" for ts
    by simp
  then show ?thesis
    using next_id_of_get_user_todos [of st u v]
    by (simp add: create_todo_eq Let_def next_id_of_current_todo_id_update
        del: next_id_of_get_user_todos current_todo_id_set_todos)
qed

lemma todos_of_create_todo:
  "todos_of (snd (create_todo st todo u now)) v
     = (if v = u then AList.update (next_id_of st u) (fst (create_todo st todo u now)) (todos_of st u)
        else todos_of st v)"
  by (simp add: create_todo_eq Let_def)

lemma users_db_create_todo [simp]: "users_db (snd (create_todo st todo u now)) = users_db st"
  by (simp add: create_todo_eq Let_def)

lemma current_user_id_create_todo [simp]:
  "current_user_id (snd (create_todo st todo u now)) = current_user_id st"
  by (simp add: create_todo_eq Let_def)

lemma storage_inv_init: "storage_inv init"
  by (simp add: storage_inv_def init_def todos_of_def next_id_of_def)

lemma storage_inv_get_user_todos:
  "storage_inv st \<Longrightarrow> storage_inv (snd (get_user_todos st u))"
  by (simp add: storage_inv_def)

lemma storage_inv_set_todos:
  assumes "storage_inv st" and "u < current_user_id st"
    and "\<forall>i \<in> fst ` set ts. i < next_id_of st u"
  shows "storage_inv (set_todos (snd (get_user_todos st u)) u ts)"
  using assms unfolding storage_inv_def by auto

lemma stored_todo_dom: "stored_todo st u i = Some t \<Longrightarrow> i \<in> fst ` set (todos_of st u)"
  unfolding stored_todo_def by (metis domI dom_map_of_conv_image_fst)

lemma storage_inv_ids:
  "storage_inv st \<Longrightarrow> i \<in> fst ` set (todos_of st u) \<Longrightarrow> i < next_id_of st u"
  by (auto simp: storage_inv_def)

lemma storage_inv_stored:
  "storage_inv st \<Longrightarrow> stored_todo st u i = Some t \<Longrightarrow> i < next_id_of st u"
  by (rule storage_inv_ids) (simp_all add: stored_todo_dom)

lemma storage_inv_update:
  assumes "storage_inv st" and "u < current_user_id st" and "stored_todo st u i = Some t"
  shows "storage_inv (set_todos (snd (get_user_todos st u)) u (AList.update i t' (todos_of st u)))"
proof (rule storage_inv_set_todos [OF assms(1,2)])
  show "\<forall>j \<in> fst ` set (AList.update i t' (todos_of st u)). j < next_id_of st u"
  proof
    fix j
    assume "j \<in> fst ` set (AList.update i t' (todos_of st u))"
    then have "j = i \<or> j \<in> fst ` set (todos_of st u)"
      by (simp only: AList.dom_update) simp
    then show "j < next_id_of st u"
      using storage_inv_stored [OF assms(1,3)] storage_inv_ids [OF assms(1), of j u] by blast
  qed
qed

lemma storage_inv_delete:
  assumes "storage_inv st" and "u < current_user_id st"
  shows "storage_inv (set_todos (snd (get_user_todos st u)) u (AList.delete i (todos_of st u)))"
proof (rule storage_inv_set_todos [OF assms(1,2)])
  show "\<forall>j \<in> fst ` set (AList.delete i (todos_of st u)). j < next_id_of st u"
  proof
    fix j
    assume "j \<in> fst ` set (AList.delete i (todos_of st u))"
    with AList.dom_delete_subset have "j \<in> fst ` set (todos_of st u)"
      by (rule subsetD)
    then show "j < next_id_of st u"
      using assms(1) by (rule storage_inv_ids [rotated])
  qed
qed

lemma storage_inv_todo_ops:
  assumes "storage_inv st" and "u < current_user_id st"
  shows "storage_inv (snd (list_todos st u))"
    and "storage_inv (snd (get_todo st i u))"
    and "storage_inv (snd (replace_todo st i todo u))"
    and "storage_inv (snd (update_todo st i p u))"
    and "storage_inv (snd (toggle_todo_status st i u))"
    and "storage_inv (snd (delete_todo st i u))"
  using assms
  by (simp_all add: todo_op_eqs storage_inv_get_user_todos storage_inv_update storage_inv_delete
      split: option.splits)

lemma storage_inv_create_todo:
  assumes "storage_inv st" and "u < current_user_id st"
  shows "storage_inv (snd (create_todo st todo u now))"
proof -
  let ?st' = "snd (create_todo st todo u now)"
  have a: "\<forall>ud \<in> snd ` set (users_db ?st'). u_id ud < current_user_id ?st'"
    using assms(1) by (auto simp: storage_inv_def)
  have b: "\<forall>n. current_user_id ?st' \<le> n \<longrightarrow> todos_of ?st' n = [] \<and> next_id_of ?st' n = 1"
    using assms by (auto simp: storage_inv_def next_id_of_create_todo todos_of_create_todo)
  have c: "i < next_id_of ?st' v" if h: "i \<in> fst ` set (todos_of ?st' v)" for i v
  proof (cases "v = u")
    case True
    with h have "i \<in> {next_id_of st u} \<union> fst ` set (todos_of st u)"
      by (simp only: todos_of_create_todo simp_thms if_True AList.dom_update)
    then have "i = next_id_of st u \<or> i \<in> fst ` set (todos_of st u)"
      by blast
    then have "i \<le> next_id_of st u"
    proof
      assume "i = next_id_of st u"
      then show ?thesis
        by simp
    next
      assume "i \<in> fst ` set (todos_of st u)"
      then have "i < next_id_of st u"
        by (rule storage_inv_ids [OF assms(1)])
      then show ?thesis
        by simp
    qed
    then show ?thesis
      using True by (simp add: next_id_of_create_todo)
  next
    case False
    with h have "i \<in> fst ` set (todos_of st v)"
      by (simp only: todos_of_create_todo simp_thms if_False)
    then have "i < next_id_of st v"
      by (rule storage_inv_ids [OF assms(1)])
    then show ?thesis
      using False by (simp add: next_id_of_create_todo)
  qed
  show ?thesis
    unfolding storage_inv_def using a b c by blast
qed

lemma set_update_subset: "set (AList.update k v al) \<subseteq> insert (k, v) (set al)"
  by (induction al) auto

lemma register_observed:
  assumes "storage_inv st"
  shows "todos_of (snd (register sha st user now token)) v = todos_of st v"
    and "next_id_of (snd (register sha st user now token)) v = next_id_of st v"
proof -
  have n: "todos_of st (current_user_id st) = [] \<and> next_id_of st (current_user_id st) = 1"
    using assms by (simp add: storage_inv_def)
  show "todos_of (snd (register sha st user now token)) v = todos_of st v"
    using n by (simp add: register_def Let_def todos_of_def AList.update_conv')
  show "next_id_of (snd (register sha st user now token)) v = next_id_of st v"
    using n by (simp add: register_def Let_def next_id_of_def AList.update_conv')
qed

lemma storage_inv_users:
  "storage_inv st \<Longrightarrow> ud \<in> snd ` set (users_db st) \<Longrightarrow> u_id ud < current_user_id st"
  by (auto simp: storage_inv_def)

lemma storage_inv_unused:
  "storage_inv st \<Longrightarrow> current_user_id st \<le> n \<Longrightarrow> todos_of st n = [] \<and> next_id_of st n = 1"
  by (simp add: storage_inv_def)

lemma storage_inv_register:
  assumes "storage_inv st"
  shows "storage_inv (snd (register sha st user now token))"
proof (cases "r_username user \<in> fst ` set (users_db st)")
  case True
  then show ?thesis
    using assms by (simp add: register_def)
next
  case False
  let ?st' = "snd (register sha st user now token)"
  let ?d = "\<lparr>u_id = current_user_id st, u_username = r_username user, u_email = r_email user,
             u_password = hash_password sha (r_password user), u_created_at = now\<rparr>"
  have c: "current_user_id ?st' = current_user_id st + 1"
    using False by (simp add: register_def Let_def)
  have d: "users_db ?st' = AList.update (r_username user) ?d (users_db st)"
    using False by (simp add: register_def Let_def)
  have a: "u_id ud < current_user_id ?st'" if h: "ud \<in> snd ` set (users_db ?st')" for ud
  proof -
    from h obtain k where "(k, ud) \<in> set (AList.update (r_username user) ?d (users_db st))"
      unfolding d by force
    with set_update_subset have "(k, ud) \<in> insert (r_username user, ?d) (set (users_db st))"
      by (rule subsetD)
    then have "ud = ?d \<or> ud \<in> snd ` set (users_db st)"
      by force
    then show ?thesis
    proof
      assume "ud = ?d"
      then show ?thesis
        by (simp add: c)
    next
      assume "ud \<in> snd ` set (users_db st)"
      then have "u_id ud < current_user_id st"
        by (rule storage_inv_users [OF assms])
      then show ?thesis
        by (simp add: c)
    qed
  qed
  have b: "todos_of ?st' n = [] \<and> next_id_of ?st' n = 1" if "current_user_id ?st' \<le> n" for n
    using that storage_inv_unused [OF assms, of n]
    by (simp add: register_observed [OF assms] c)
  have e: "i < next_id_of ?st' u" if "i \<in> fst ` set (todos_of ?st' u)" for i u
    using that storage_inv_ids [OF assms, of i u]
    by (simp only: register_observed [OF assms])
  show ?thesis
    unfolding storage_inv_def using a b e by blast
qed

lemma get_current_user_id:
  "get_current_user st token = Inr cu \<Longrightarrow> \<exists>ud \<in> snd ` set (users_db st). u_id ud = cu_id cu"
  by (auto simp: get_current_user_def split: option.splits if_splits) (metis imageI snd_conv)

lemma storage_inv_user:
  assumes "storage_inv st" and "get_current_user st token = Inr cu"
  shows "cu_id cu < current_user_id st"
proof -
  from get_current_user_id [OF assms(2)] obtain ud
    where "ud \<in> snd ` set (users_db st)" and "u_id ud = cu_id cu"
    by blast
  then show ?thesis
    using storage_inv_users [OF assms(1), of ud] by simp
qed

lemma storage_inv_sessions [simp]: "storage_inv (st\<lparr>sessions := s\<rparr>) = storage_inv st"
  by (simp add: storage_inv_def todos_of_def next_id_of_def)

lemma storage_inv_handle:
  assumes "storage_inv st"
  shows "storage_inv (snd (handle sha email_check st r))"
proof (cases r)
  case (Register b now token)
  then show ?thesis
    using assms by (simp add: storage_inv_register split: sum.splits)
next
  case (Login user token)
  then show ?thesis
    using assms by (simp add: login_def split: option.splits)
next
  case (Logout token)
  then show ?thesis
    using assms by (simp add: logout_def)
next
  case (Me token)
  then show ?thesis
    using assms by (simp split: sum.splits option.splits)
next
  case (CreateTodo token b now)
  then show ?thesis
    using assms storage_inv_user [OF assms, of token]
    by (simp add: storage_inv_create_todo split: sum.splits prod.splits)
       (metis snd_conv storage_inv_create_todo)
next
  case (ListTodos token)
  then show ?thesis
    using assms storage_inv_user [OF assms, of token]
    by (simp add: storage_inv_todo_ops split: sum.splits)
next
  case (GetTodo token i)
  then show ?thesis
    using assms storage_inv_user [OF assms, of token]
    by (simp add: storage_inv_todo_ops split: sum.splits)
next
  case (ReplaceTodo token i b)
  then show ?thesis
    using assms storage_inv_user [OF assms, of token]
    by (simp add: storage_inv_todo_ops split: sum.splits)
next
  case (UpdateTodo token i p)
  then show ?thesis
    using assms storage_inv_user [OF assms, of token]
    by (simp add: storage_inv_todo_ops split: sum.splits)
next
  case (ToggleTodo token i)
  then show ?thesis
    using assms storage_inv_user [OF assms, of token]
    by (simp add: storage_inv_todo_ops split: sum.splits)
next
  case (DeleteTodo token i)
  then show ?thesis
    using assms storage_inv_user [OF assms, of token]
    by (simp add: storage_inv_todo_ops split: sum.splits)
qed

section \<open>The ids given by create\<close>

lemma next_id_of_sessions [simp]: "next_id_of (st\<lparr>sessions := s\<rparr>) v = next_id_of st v"
  by (simp add: next_id_of_def)

lemma stored_todo_sessions [simp]: "stored_todo (st\<lparr>sessions := s\<rparr>) v i = stored_todo st v i"
  by (simp add: stored_todo_def todos_of_def)

lemma next_id_of_todo_ops:
  shows "next_id_of (snd (list_todos st u)) v = next_id_of st v"
    and "next_id_of (snd (get_todo st i u)) v = next_id_of st v"
    and "next_id_of (snd (replace_todo st i todo u)) v = next_id_of st v"
    and "next_id_of (snd (update_todo st i p u)) v = next_id_of st v"
    and "next_id_of (snd (toggle_todo_status st i u)) v = next_id_of st v"
    and "next_id_of (snd (delete_todo st i u)) v = next_id_of st v"
  by (simp_all add: todo_op_eqs split: option.splits)

lemma created_id_respond_todo:
  "code \<noteq> 201 \<Longrightarrow> created_id v (fst (respond_todo code r)) = []"
  by (simp add: respond_todo_def split: sum.splits)

lemma created_id_respond_todos: "created_id v (fst (respond_todos code r)) = []"
  by (simp add: respond_todos_def split: sum.splits)

lemma created_id_respond_Token: "created_id v (fst (respond code Token r)) = []"
  by (simp add: respond_def split: sum.splits)

lemma created_id_respond_NoContent: "created_id v (fst (respond code (\<lambda>_. NoContent) r)) = []"
  by (simp add: respond_def split: sum.splits)

lemmas created_id_respond = created_id_respond_todo created_id_respond_todos
  created_id_respond_Token created_id_respond_NoContent

lemma handle_CreateTodo_ok:
  assumes "get_current_user st token = Inr cu" and "TodoCreate_validate b = Inr todo"
  shows "handle sha email_check st (CreateTodo token b now)
     = (Inr (201, Todo (fst (create_todo st todo (cu_id cu) now))),
        snd (create_todo st todo (cu_id cu) now))"
  using assms TodoResponse_validate_created [OF assms(2), of st "cu_id cu" now]
  by (cases "create_todo st todo (cu_id cu) now") (simp add: respond_todo_def)

lemma created_todo_id:
  "t_id (fst (create_todo st todo u now)) = next_id_of st u
   \<and> t_user_id (fst (create_todo st todo u now)) = u
   \<and> t_created_at (fst (create_todo st todo u now)) = now"
  by (simp add: create_todo_eq Let_def)

lemma handle_next_id:
  assumes "storage_inv st"
  shows "(created_id v (fst (handle sha email_check st r)) = []
          \<and> next_id_of (snd (handle sha email_check st r)) v = next_id_of st v)
       \<or> (created_id v (fst (handle sha email_check st r)) = [next_id_of st v]
          \<and> next_id_of (snd (handle sha email_check st r)) v = next_id_of st v + 1)"
proof (cases r)
  case (Register b now token)
  then show ?thesis
    using register_observed(2) [OF assms]
    by (simp add: created_id_respond split: sum.splits)
next
  case (Login user token)
  then show ?thesis
    by (simp add: created_id_respond) (simp add: login_def split: option.splits)
next
  case (Logout token)
  then show ?thesis
    by (simp add: logout_def)
next
  case (Me token)
  then show ?thesis
    by (simp split: sum.splits option.splits)
next
  case (CreateTodo token b now)
  show ?thesis
  proof (cases "get_current_user st token")
    case (Inl e)
    then show ?thesis
      using CreateTodo by simp
  next
    case (Inr cu)
    show ?thesis
    proof (cases "TodoCreate_validate b")
      case (Inl e)
      then show ?thesis
        using CreateTodo \<open>get_current_user st token = Inr cu\<close> by simp
    next
      case (Inr todo)
      show ?thesis
        unfolding CreateTodo handle_CreateTodo_ok [OF \<open>get_current_user st token = Inr cu\<close> Inr]
        by (simp add: created_todo_id next_id_of_create_todo)
    qed
  qed
next
  case (ListTodos token)
  then show ?thesis
    by (simp add: created_id_respond next_id_of_todo_ops split: sum.splits)
next
  case (GetTodo token i)
  then show ?thesis
    by (simp add: created_id_respond next_id_of_todo_ops split: sum.splits)
next
  case (ReplaceTodo token i b)
  then show ?thesis
    by (simp add: created_id_respond next_id_of_todo_ops split: sum.splits)
next
  case (UpdateTodo token i p)
  then show ?thesis
    by (simp add: created_id_respond next_id_of_todo_ops split: sum.splits)
next
  case (ToggleTodo token i)
  then show ?thesis
    by (simp add: created_id_respond next_id_of_todo_ops split: sum.splits)
next
  case (DeleteTodo token i)
  then show ?thesis
    by (simp add: created_id_respond next_id_of_todo_ops split: sum.splits)
qed

lemma run_Cons:
  "run sha email_check st (r # rs) =
     (fst (run sha email_check (snd (handle sha email_check st r)) rs),
      fst (handle sha email_check st r) # snd (run sha email_check (snd (handle sha email_check st r)) rs))"
  by (simp add: split_beta)

lemma storage_inv_run:
  "storage_inv st \<Longrightarrow> storage_inv (fst (run sha email_check st rs))"
  by (induction rs arbitrary: st) (simp_all add: split_beta storage_inv_handle)

lemma run_append:
  "fst (run sha email_check st (rs @ rs')) = fst (run sha email_check (fst (run sha email_check st rs)) rs')"
  by (induction rs arbitrary: st) (simp_all add: split_beta)

lemma created_ids_run:
  assumes "storage_inv st"
  shows "created_ids v (snd (run sha email_check st rs))
       = [next_id_of st v .. next_id_of st v + int (length (created_ids v (snd (run sha email_check st rs)))) - 1]"
  using assms
proof (induction rs arbitrary: st)
  case Nil
  then show ?case
    by (simp add: created_ids_def)
next
  case (Cons r rs)
  let ?st1 = "snd (handle sha email_check st r)"
  let ?x = "fst (handle sha email_check st r)"
  let ?xs = "created_ids v (snd (run sha email_check ?st1 rs))"
  have inv: "storage_inv ?st1"
    using Cons.prems by (rule storage_inv_handle)
  have ih: "?xs = [next_id_of ?st1 v .. next_id_of ?st1 v + int (length ?xs) - 1]"
    using Cons.IH [OF inv] .
  have c: "created_ids v (snd (run sha email_check st (r # rs))) = created_id v ?x @ ?xs"
    by (simp add: created_ids_def split_beta)
  from handle_next_id [OF Cons.prems, of v sha email_check r] show ?case
  proof
    assume a: "created_id v ?x = [] \<and> next_id_of ?st1 v = next_id_of st v"
    then show ?thesis
      unfolding c using ih by simp
  next
    assume a: "created_id v ?x = [next_id_of st v] \<and> next_id_of ?st1 v = next_id_of st v + 1"
    have "[next_id_of st v .. next_id_of st v + int (length ?xs)]
        = next_id_of st v # [next_id_of st v + 1 .. next_id_of st v + int (length ?xs)]"
      by (rule upto_rec1) simp
    also have "[next_id_of st v + 1 .. next_id_of st v + int (length ?xs)] = ?xs"
      using ih a by (simp add: add.commute add.left_commute)
    finally show ?thesis
      unfolding c using a by simp
  qed
qed

text \<open>
  Claim C3. Whatever requests the service has answered since it started, the ids that the
  create route has returned to one user are 1, 2, 3, ... in this order: they start at 1,
  each is one more than the one before, none is returned twice, deleted or not, and the
  requests of the other users do not change them. In the scenario of the specification,
  alice creates task 1, deletes it, gets "not found" for it, and her next task has id 2;
  the first task of bob, who registers later, has id 1.
\<close>

theorem todo_ids_never_reused:
  "created_ids u (snd (run sha email_check init rs))
     = [1 .. int (length (created_ids u (snd (run sha email_check init rs))))]
   \<and> snd (run demo_sha demo_email init
        [Register alice (str ''t0'') (str ''A''),
         CreateTodo (str ''A'') buy_milk (str ''t1''),
         DeleteTodo (str ''A'') 1,
         GetTodo (str ''A'') 1,
         CreateTodo (str ''A'') buy_milk (str ''t4''),
         Register bob (str ''t2'') (str ''B''),
         CreateTodo (str ''B'') buy_milk (str ''t5'')])
     = [Inr (200, Token (str ''A'')),
        Inr (201, Todo milk),
        Inr (204, NoContent),
        Inl (not_found 1),
        Inr (201, Todo (milk\<lparr>t_id := 2, t_created_at := str ''t4''\<rparr>)),
        Inr (200, Token (str ''B'')),
        Inr (201, Todo (milk\<lparr>t_user_id := 2, t_created_at := str ''t5''\<rparr>))]"
proof
  have "next_id_of init u = 1"
    by (simp add: next_id_of_def init_def)
  then show "created_ids u (snd (run sha email_check init rs))
     = [1 .. int (length (created_ids u (snd (run sha email_check init rs))))]"
    using created_ids_run [OF storage_inv_init, of u sha email_check rs] by simp
next
  show "snd (run demo_sha demo_email init
        [Register alice (str ''t0'') (str ''A''),
         CreateTodo (str ''A'') buy_milk (str ''t1''),
         DeleteTodo (str ''A'') 1,
         GetTodo (str ''A'') 1,
         CreateTodo (str ''A'') buy_milk (str ''t4''),
         Register bob (str ''t2'') (str ''B''),
         CreateTodo (str ''B'') buy_milk (str ''t5'')])
     = [Inr (200, Token (str ''A'')),
        Inr (201, Todo milk),
        Inr (204, NoContent),
        Inl (not_found 1),
        Inr (201, Todo (milk\<lparr>t_id := 2, t_created_at := str ''t4''\<rparr>)),
        Inr (200, Token (str ''B'')),
        Inr (201, Todo (milk\<lparr>t_user_id := 2, t_created_at := str ''t5''\<rparr>))]"
    by (simp add: demo_defs eval_defs)
qed

section \<open>The creation time\<close>

lemma t_created_at_apply_update [simp]: "t_created_at (apply_update p t) = t_created_at t"
  by (simp add: apply_update_def Let_def split: field.splits)

lemma map_of_delete_Some: "map_of (AList.delete j al) i = Some t \<Longrightarrow> map_of al i = Some t"
  by (simp add: AList.delete_conv' split: if_splits)

lemma created_at_todo_ops:
  shows "stored_todo (snd (list_todos st u)) v i = Some t' \<Longrightarrow>
           \<exists>t. stored_todo st v i = Some t \<and> t_created_at t' = t_created_at t"
    and "stored_todo (snd (get_todo st j u)) v i = Some t' \<Longrightarrow>
           \<exists>t. stored_todo st v i = Some t \<and> t_created_at t' = t_created_at t"
    and "stored_todo (snd (replace_todo st j todo u)) v i = Some t' \<Longrightarrow>
           \<exists>t. stored_todo st v i = Some t \<and> t_created_at t' = t_created_at t"
    and "stored_todo (snd (update_todo st j p u)) v i = Some t' \<Longrightarrow>
           \<exists>t. stored_todo st v i = Some t \<and> t_created_at t' = t_created_at t"
    and "stored_todo (snd (toggle_todo_status st j u)) v i = Some t' \<Longrightarrow>
           \<exists>t. stored_todo st v i = Some t \<and> t_created_at t' = t_created_at t"
    and "stored_todo (snd (delete_todo st j u)) v i = Some t' \<Longrightarrow>
           \<exists>t. stored_todo st v i = Some t \<and> t_created_at t' = t_created_at t"
  by (auto simp: todo_op_eqs AList.update_conv' stored_todo_def [of st u]
      dest: map_of_delete_Some split: option.splits if_splits)

lemma created_at_create_todo:
  assumes "stored_todo (snd (create_todo st todo u now)) v i = Some t'" and "i < next_id_of st v"
  shows "stored_todo st v i = Some t'"
  using assms
  by (auto simp: stored_todo_def todos_of_create_todo AList.update_conv' split: if_splits)

lemma stored_todo_register:
  "storage_inv st \<Longrightarrow> stored_todo (snd (register sha st user now token)) v i = stored_todo st v i"
  by (simp add: stored_todo_def register_observed)

lemma handle_created_at:
  assumes "storage_inv st" and "stored_todo (snd (handle sha email_check st r)) v i = Some t'"
    and "i < next_id_of st v"
  shows "\<exists>t. stored_todo st v i = Some t \<and> t_created_at t' = t_created_at t"
proof (cases r)
  case (Register b now token)
  then show ?thesis
    using assms by (simp add: stored_todo_register split: sum.splits)
next
  case (Login user token)
  then show ?thesis
    using assms(2) by (simp add: login_def split: option.splits if_splits)
next
  case (Logout token)
  then show ?thesis
    using assms(2) by (simp add: logout_def split: if_splits)
next
  case (Me token)
  then show ?thesis
    using assms(2) by (simp split: sum.splits option.splits)
next
  case (CreateTodo token b now)
  show ?thesis
  proof (cases "get_current_user st token")
    case (Inl e)
    then show ?thesis
      using CreateTodo assms(2) by simp
  next
    case (Inr cu)
    show ?thesis
    proof (cases "TodoCreate_validate b")
      case (Inl e)
      then show ?thesis
        using CreateTodo \<open>get_current_user st token = Inr cu\<close> assms(2) by simp
    next
      case (Inr todo)
      have "stored_todo (snd (create_todo st todo (cu_id cu) now)) v i = Some t'"
        using assms(2)
        unfolding CreateTodo handle_CreateTodo_ok [OF \<open>get_current_user st token = Inr cu\<close> Inr]
        by simp
      then have "stored_todo st v i = Some t'"
        using assms(3) by (rule created_at_create_todo)
      then show ?thesis
        by simp
    qed
  qed
next
  case (ListTodos token)
  then show ?thesis
    using assms(2) by (auto split: sum.splits dest: created_at_todo_ops)
next
  case (GetTodo token j)
  then show ?thesis
    using assms(2) by (auto split: sum.splits dest: created_at_todo_ops)
next
  case (ReplaceTodo token j b)
  then show ?thesis
    using assms(2) by (auto split: sum.splits dest: created_at_todo_ops)
next
  case (UpdateTodo token j p)
  then show ?thesis
    using assms(2) by (auto split: sum.splits dest: created_at_todo_ops)
next
  case (ToggleTodo token j)
  then show ?thesis
    using assms(2) by (auto split: sum.splits dest: created_at_todo_ops)
next
  case (DeleteTodo token j)
  then show ?thesis
    using assms(2) by (auto split: sum.splits dest: created_at_todo_ops)
qed

lemma next_id_of_handle_mono:
  "storage_inv st \<Longrightarrow> next_id_of st v \<le> next_id_of (snd (handle sha email_check st r)) v"
  using handle_next_id [of st v sha email_check r] by auto

lemma created_at_run:
  assumes "storage_inv st" and "i < next_id_of st v"
    and "stored_todo (fst (run sha email_check st rs)) v i = Some t'"
  shows "\<exists>t. stored_todo st v i = Some t \<and> t_created_at t' = t_created_at t"
  using assms
proof (induction rs arbitrary: st)
  case Nil
  then show ?case
    by simp
next
  case (Cons r rs)
  let ?st1 = "snd (handle sha email_check st r)"
  have inv: "storage_inv ?st1"
    using Cons.prems(1) by (rule storage_inv_handle)
  have lt: "i < next_id_of ?st1 v"
    using Cons.prems(2) next_id_of_handle_mono [OF Cons.prems(1), of v sha email_check r] by simp
  have "stored_todo (fst (run sha email_check ?st1 rs)) v i = Some t'"
    using Cons.prems(3) by (simp add: split_beta)
  from Cons.IH [OF inv lt this] obtain t1
    where t1: "stored_todo ?st1 v i = Some t1" "t_created_at t' = t_created_at t1"
    by blast
  from handle_created_at [OF Cons.prems(1) t1(1) Cons.prems(2)] obtain t
    where "stored_todo st v i = Some t" "t_created_at t1 = t_created_at t"
    by blast
  then show ?case
    using t1(2) by simp
qed

text \<open>
  Claim C7. A task that is stored at some moment of the service's life and is stored under
  the same user and id at a later moment has the same \<open>created_at\<close>, whatever requests
  were answered in between. The creation writes the clock reading into it; a replacement
  of a stored task stores and returns the new field values with the \<open>created_at\<close> of the
  task it replaces; a partial update and a toggle store and return a task with the
  \<open>created_at\<close> of the task they change.
\<close>

theorem created_at_immutable:
  "(stored_todo (fst (run sha email_check init rs)) u i = Some t
      \<and> stored_todo (fst (run sha email_check init (rs @ rs'))) u i = Some t'
      \<longrightarrow> t_created_at t' = t_created_at t)
   \<and> t_created_at (fst (create_todo st todo u now)) = now
   \<and> (stored_todo st u i = Some t \<longrightarrow>
        (\<exists>r st'. replace_todo st i todo u = (Inr r, st') \<and> stored_todo st' u i = Some r
           \<and> t_created_at r = t_created_at t
           \<and> t_title r = title todo \<and> t_description r = description todo
           \<and> t_due_date r = due_date todo \<and> t_priority r = priority todo
           \<and> t_completed r = completed todo \<and> t_id r = i \<and> t_user_id r = u)
        \<and> (\<exists>r st'. update_todo st i p u = (Inr r, st') \<and> stored_todo st' u i = Some r
              \<and> t_created_at r = t_created_at t)
        \<and> (\<exists>r st'. toggle_todo_status st i u = (Inr r, st') \<and> stored_todo st' u i = Some r
              \<and> t_created_at r = t_created_at t))"
proof (intro conjI impI)
  assume a: "stored_todo (fst (run sha email_check init rs)) u i = Some t
      \<and> stored_todo (fst (run sha email_check init (rs @ rs'))) u i = Some t'"
  let ?st = "fst (run sha email_check init rs)"
  have inv: "storage_inv ?st"
    using storage_inv_init by (rule storage_inv_run)
  have lt: "i < next_id_of ?st u"
    using inv a by (blast intro: storage_inv_stored)
  have "stored_todo (fst (run sha email_check ?st rs')) u i = Some t'"
    using a by (simp add: run_append)
  from created_at_run [OF inv lt this] show "t_created_at t' = t_created_at t"
    using a by simp
next
  show "t_created_at (fst (create_todo st todo u now)) = now"
    by (simp add: created_todo_id)
next
  assume "stored_todo st u i = Some t"
  then show "\<exists>r st'. replace_todo st i todo u = (Inr r, st') \<and> stored_todo st' u i = Some r
           \<and> t_created_at r = t_created_at t
           \<and> t_title r = title todo \<and> t_description r = description todo
           \<and> t_due_date r = due_date todo \<and> t_priority r = priority todo
           \<and> t_completed r = completed todo \<and> t_id r = i \<and> t_user_id r = u"
    by (simp add: replace_todo_eq AList.update_conv')
next
  assume "stored_todo st u i = Some t"
  then show "\<exists>r st'. update_todo st i p u = (Inr r, st') \<and> stored_todo st' u i = Some r
              \<and> t_created_at r = t_created_at t"
    by (simp add: update_todo_eq AList.update_conv')
next
  assume "stored_todo st u i = Some t"
  then show "\<exists>r st'. toggle_todo_status st i u = (Inr r, st') \<and> stored_todo st' u i = Some r
              \<and> t_created_at r = t_created_at t"
    by (simp add: toggle_todo_status_eq AList.update_conv')
qed

theorem created_at_immutable_witness:
  "stored_todo (fst (run demo_sha demo_email init
       [Register alice (str ''t0'') (str ''A''), CreateTodo (str ''A'') buy_milk (str ''t1'')])) 1 1 = Some milk
   \<and> stored_todo (fst (run demo_sha demo_email init
         ([Register alice (str ''t0'') (str ''A''), CreateTodo (str ''A'') buy_milk (str ''t1'')]
          @ [ReplaceTodo (str ''A'') 1 (buy_milk\<lparr>b_title := Some (str ''Buy oat milk'')\<rparr>),
            UpdateTodo (str ''A'') 1
              \<lparr>p_title = Unset, p_description = Val (str ''2 l''), p_due_date = Unset,
               p_priority = Val 4, p_completed = Unset\<rparr>,
            ToggleTodo (str ''A'') 1]))) 1 1
       = Some \<lparr>t_id = 1, t_user_id = 1, t_title = str ''Buy oat milk'', t_description = Some (str ''2 l''),
          t_due_date = None, t_priority = 4, t_completed = True, t_created_at = str ''t1''\<rparr>
   \<and> t_created_at \<lparr>t_id = 1, t_user_id = 1, t_title = str ''Buy oat milk'', t_description = Some (str ''2 l''),
          t_due_date = None, t_priority = 4, t_completed = True, t_created_at = str ''t1''\<rparr> = t_created_at milk
   \<and> stored_todo st_alice 1 1 = Some milk
   \<and> (\<exists>r st'. replace_todo st_alice 1
         \<lparr>title = str ''Buy oat milk'', description = None, due_date = None, priority = 2,
          completed = False\<rparr> 1 = (Inr r, st')
        \<and> stored_todo st' 1 1 = Some r \<and> t_created_at r = t_created_at milk
        \<and> t_title r = str ''Buy oat milk'')"
proof -
  have h1: "stored_todo (fst (run demo_sha demo_email init
       [Register alice (str ''t0'') (str ''A''), CreateTodo (str ''A'') buy_milk (str ''t1'')])) 1 1 = Some milk"
    by (simp add: demo_defs eval_defs)
  have h2: "stored_todo (fst (run demo_sha demo_email init
         ([Register alice (str ''t0'') (str ''A''), CreateTodo (str ''A'') buy_milk (str ''t1'')]
          @ [ReplaceTodo (str ''A'') 1 (buy_milk\<lparr>b_title := Some (str ''Buy oat milk'')\<rparr>),
            UpdateTodo (str ''A'') 1
              \<lparr>p_title = Unset, p_description = Val (str ''2 l''), p_due_date = Unset,
               p_priority = Val 4, p_completed = Unset\<rparr>,
            ToggleTodo (str ''A'') 1]))) 1 1
       = Some \<lparr>t_id = 1, t_user_id = 1, t_title = str ''Buy oat milk'', t_description = Some (str ''2 l''),
          t_due_date = None, t_priority = 4, t_completed = True, t_created_at = str ''t1''\<rparr>"
    by (simp add: demo_defs eval_defs)
  have h3: "stored_todo st_alice 1 1 = Some milk"
    by (simp add: stored_todo_def todos_of_def st_alice_def)
  note w = created_at_immutable [of demo_sha demo_email
      "[Register alice (str ''t0'') (str ''A''), CreateTodo (str ''A'') buy_milk (str ''t1'')]" 1 1 milk
      "[ReplaceTodo (str ''A'') 1 (buy_milk\<lparr>b_title := Some (str ''Buy oat milk'')\<rparr>),
            UpdateTodo (str ''A'') 1
              \<lparr>p_title = Unset, p_description = Val (str ''2 l''), p_due_date = Unset,
               p_priority = Val 4, p_completed = Unset\<rparr>,
            ToggleTodo (str ''A'') 1]"
      "\<lparr>t_id = 1, t_user_id = 1, t_title = str ''Buy oat milk'', t_description = Some (str ''2 l''),
          t_due_date = None, t_priority = 4, t_completed = True, t_created_at = str ''t1''\<rparr>"
      st_alice
      "\<lparr>title = str ''Buy oat milk'', description = None, due_date = None, priority = 2,
          completed = False\<rparr>" "str ''t9''"
      "\<lparr>p_title = Unset, p_description = Val (str ''2 l''), p_due_date = Unset,
          p_priority = Val 4, p_completed = Unset\<rparr>"]
  from w h1 h2 have c: "t_created_at \<lparr>t_id = 1, t_user_id = 1, t_title = str ''Buy oat milk'', t_description = Some (str ''2 l''),
          t_due_date = None, t_priority = 4, t_completed = True, t_created_at = str ''t1''\<rparr> = t_created_at milk"
    by blast
  from w h3 have r: "\<exists>r st'. replace_todo st_alice 1
         \<lparr>title = str ''Buy oat milk'', description = None, due_date = None, priority = 2,
          completed = False\<rparr> 1 = (Inr r, st')
        \<and> stored_todo st' 1 1 = Some r \<and> t_created_at r = t_created_at milk
        \<and> t_title r = str ''Buy oat milk''"
    by (simp del: stored_todo_set_todos) blast
  from h1 h2 h3 c r show ?thesis
    by blast
qed

end
